theory Spec2Isabelle
  imports Complex_Main "HOL-Library.Word"
begin

section \<open>Data model of \<open>src/main.js\<close>\<close>

text \<open>
  The page transfers one file over an ordered WebRTC data channel. A byte buffer
  (\<open>ArrayBuffer\<close>, \<open>Uint8Array\<close>) is a list of 8-bit words; every byte count of the source
  (\<open>byteLength\<close>, \<open>length\<close>, \<open>file.size\<close>) is the length of such a list. All sizes stay far
  below \<open>2^53\<close>, so the JavaScript numbers that hold them are exact and are modelled as
  natural numbers.
\<close>

type_synonym bytes = "8 word list"

text \<open>Lines 4 and 5.\<close>

definition CHUNK_SIZE :: nat where
  "CHUNK_SIZE = 64 * 1024"

definition BUFFER_THRESHOLD :: nat where
  "BUFFER_THRESHOLD = 1024 * 1024"

text \<open>
  The object literal of lines 319 to 327, which \<open>handleFileMetadata\<close> reads back.
  The field \<open>size\<close> is written \<open>size'\<close>.
\<close>

record metadata =
  name :: string
  size' :: nat
  mimeType :: string
  compressed :: bool
  compressionLevel :: int
  totalChunks :: nat

text \<open>The object literal of lines 358 to 363.\<close>

record chunkHeader =
  index :: nat
  originalSize :: nat
  compressedSize :: nat

text \<open>
  A text frame is represented by the object that \<open>JSON.parse\<close> returns for it, and
  \<open>JSON.stringify\<close> followed by \<open>JSON.parse\<close> is taken to give back the three objects
  the sender builds. \<open>OtherMsg\<close> is an object whose \<open>type\<close> is none of the three tags of the
  \<open>switch\<close> at line 396. A binary frame carries its bytes.
\<close>

datatype message =
    MetadataMsg metadata
  | ChunkMsg chunkHeader
  | CompleteMsg
  | OtherMsg string

datatype frame = Text message | Binary bytes

text \<open>
  \<open>zstdCodec\<close> is an object of the external library \<open>zstd-codec\<close>; its two methods are
  parameters of the model. \<open>compress\<close> is taken to succeed on every buffer. \<open>decompress\<close>
  answering \<open>None\<close> stands for the library raising on input it cannot decode, which is
  how the specification of the compression adapter describes its failure. The arrays
  the library returns are taken to own their buffer (\<open>chunk.buffer\<close> at line 485 holds
  exactly the bytes of \<open>chunk\<close>).
\<close>

record codec =
  compress :: "bytes \<Rightarrow> int \<Rightarrow> bytes"
  decompress :: "bytes \<Rightarrow> bytes option"

text \<open>
  The counters of \<open>benchmark\<close> (lines 24 to 33). Its four time stamps are readings of
  \<open>performance.now()\<close>; they influence no frame and no delivered byte and are left out.
\<close>

record benchmark =
  benchOriginalSize :: nat
  benchCompressedSize :: nat
  chunksSent :: nat
  chunksReceived :: nat

text \<open>
  The data channel as the sender sees it: its \<open>readyState\<close>, its \<open>bufferedAmount\<close> and,
  in \<open>outbox\<close>, every frame handed to \<open>send\<close>, oldest first.
\<close>

datatype readyState = Connecting | Open | Closing | Closed

record channel =
  readyState :: readyState
  bufferedAmount :: nat
  outbox :: "frame list"

text \<open>\<open>elements.fileInput.files[0]\<close>: \<open>file.size\<close> is the length of \<open>content\<close>.\<close>

record inputFile =
  fileName :: string
  fileType :: string
  content :: bytes

text \<open>
  A buffer the receiver accumulates. The data of a binary frame is an \<open>ArrayBuffer\<close>
  (\<open>binaryType\<close>, line 161), the result of the codec a \<open>Uint8Array\<close>; the two differ in
  that only the second has a \<open>length\<close>.
\<close>

datatype buffer = ArrayBuffer bytes | Uint8Array bytes

fun bytesOf :: "buffer \<Rightarrow> bytes" where
  "bytesOf (ArrayBuffer b) = b"
| "bytesOf (Uint8Array b) = b"

text \<open>
  A JavaScript number that holds a byte count and may have become \<open>NaN\<close>, with its sum,
  and with the conversion to an integer that \<open>new Uint8Array(n)\<close> and the offset of
  \<open>set\<close> apply, which takes \<open>NaN\<close> to zero.
\<close>

datatype number = Num nat | NaN

fun add :: "number \<Rightarrow> number \<Rightarrow> number" where
  "add (Num a) (Num b) = Num (a + b)"
| "add a b = NaN"

fun toInteger :: "number \<Rightarrow> nat" where
  "toInteger (Num n) = n"
| "toInteger NaN = 0"

text \<open>
  \<open>chunk.byteLength || chunk.length\<close> of lines 462, 480 and 486. A zero \<open>byteLength\<close> is
  falsy, so the value is then \<open>chunk.length\<close>: zero for a \<open>Uint8Array\<close>, \<open>undefined\<close> for an
  \<open>ArrayBuffer\<close>. The value is only ever added to a number, and a sum with \<open>undefined\<close>
  is \<open>NaN\<close>, so \<open>undefined\<close> is written \<open>NaN\<close>.
\<close>

fun byteLengthOrLength :: "buffer \<Rightarrow> number" where
  "byteLengthOrLength (ArrayBuffer b) = (if length b \<noteq> 0 then Num (length b) else NaN)"
| "byteLengthOrLength (Uint8Array b) = (if length b \<noteq> 0 then Num (length b) else Num (length b))"

text \<open>The object built at lines 418 to 425 and held in \<open>incomingFile\<close>.\<close>

record incoming =
  inName :: string
  inSize :: nat
  inMimeType :: string
  inCompressed :: bool
  inTotalChunks :: nat
  currentChunk :: "chunkHeader option"

text \<open>
  An entry appended to \<open>elements.fileList\<close> at lines 490 to 504: the name and the declared
  size shown, and the blob behind the download link.
\<close>

record received =
  shownName :: string
  shownSize :: nat
  blobType :: string
  blobData :: bytes

text \<open>
  The calls of \<open>log\<close> with type \<open>error\<close> or \<open>warning\<close> in the transfer functions
  (lines 290, 295 and 380). The other log lines are presentation and are left out.
\<close>

datatype diagnostic = NoFileSelected | DataChannelNotReady | BufferFull nat

text \<open>
  The globals of lines 11 to 33 and the form controls a transfer reads or writes.
  \<open>levelInput\<close> is \<open>parseInt(elements.compressionLevel.value)\<close>.
\<close>

record state =
  dataChannel :: "channel option"
  zstdCodec :: "codec option"
  incomingFile :: "incoming option"
  receivedChunks :: "buffer list"
  receivedSize :: number
  benchmark :: benchmark
  fileInput :: "inputFile option"
  compressionToggle :: bool
  levelInput :: int
  fileList :: "received list"
  diagnostics :: "diagnostic list"

text \<open>
  How a handler ends: it returns, it throws, or (the sender only) it is still suspended
  in \<open>waitForBufferDrain\<close> when the observed behaviour of the transport ends.
\<close>

datatype error = TypeError | RangeError | CodecNotInitialized | CodecFailure

datatype outcome = Returned | Threw error | Suspended

text \<open>
  The state after the script has loaded (lines 11 to 33), with no file selected; the two
  form controls are taken to stand as the globals \<open>isCompressing\<close> and
  \<open>compressionLevel\<close> of lines 15 and 16 do.
\<close>

definition initial :: state where
  "initial =
     \<lparr>dataChannel = None, zstdCodec = None, incomingFile = None, receivedChunks = [],
      receivedSize = Num 0,
      benchmark = \<lparr>benchOriginalSize = 0, benchCompressedSize = 0, chunksSent = 0,
                   chunksReceived = 0\<rparr>,
      fileInput = None, compressionToggle = True, levelInput = 3, fileList = [],
      diagnostics = []\<rparr>"

section \<open>Compression functions\<close>

text \<open>Lines 107 to 131; the elapsed time of the result is left out.\<close>

definition compressData :: "codec option \<Rightarrow> bytes \<Rightarrow> int \<Rightarrow> error + bytes" where
  "compressData zc data level =
     (case zc of
        None \<Rightarrow> Inl CodecNotInitialized
      | Some c \<Rightarrow> Inr (compress c data level))"

definition decompressData :: "codec option \<Rightarrow> bytes \<Rightarrow> error + bytes" where
  "decompressData zc data =
     (case zc of
        None \<Rightarrow> Inl CodecNotInitialized
      | Some c \<Rightarrow>
          (case decompress c data of
             None \<Rightarrow> Inl CodecFailure
           | Some d \<Rightarrow> Inr d))"

section \<open>The receiver\<close>

text \<open>Lines 413 to 443.\<close>

definition handleFileMetadata :: "metadata \<Rightarrow> state \<Rightarrow> state" where
  "handleFileMetadata m s =
     s\<lparr>incomingFile :=
         Some \<lparr>inName = name m, inSize = size' m, inMimeType = mimeType m,
               inCompressed = compressed m, inTotalChunks = totalChunks m,
               currentChunk = None\<rparr>,
       receivedChunks := [],
       receivedSize := Num 0,
       benchmark :=
         \<lparr>benchOriginalSize = size' m, benchCompressedSize = 0, chunksSent = 0,
          chunksReceived = 0\<rparr>\<rparr>"

text \<open>
  Lines 445 to 474. The counter \<open>benchmark.compressedSize\<close> is raised before the codec
  runs, so it keeps the raise when \<open>decompressData\<close> throws. The chunk kept is the
  frame's \<open>ArrayBuffer\<close> itself, or the \<open>Uint8Array\<close> the codec has returned.
\<close>

definition handleChunkData :: "bytes \<Rightarrow> state \<Rightarrow> state \<times> outcome" where
  "handleChunkData data s =
     (case incomingFile s of
        None \<Rightarrow> (s, Returned)
      | Some f \<Rightarrow>
          (case currentChunk f of
             None \<Rightarrow> (s, Returned)
           | Some chunkInfo \<Rightarrow>
               (let s1 = s\<lparr>benchmark := (benchmark s)
                            \<lparr>benchCompressedSize :=
                               benchCompressedSize (benchmark s) + length data\<rparr>\<rparr>
                in case (if inCompressed f
                         then (case decompressData (zstdCodec s) data of
                                 Inl e \<Rightarrow> Inl e
                               | Inr d \<Rightarrow> Inr (Uint8Array d))
                         else Inr (ArrayBuffer data)) of
                     Inl e \<Rightarrow> (s1, Threw e)
                   | Inr chunkData \<Rightarrow>
                       (s1\<lparr>receivedChunks := receivedChunks s1 @ [chunkData],
                           receivedSize :=
                             add (receivedSize s1) (byteLengthOrLength chunkData),
                           benchmark := (benchmark s1)
                             \<lparr>chunksReceived := chunksReceived (benchmark s1) + 1\<rparr>,
                           incomingFile := Some (f\<lparr>currentChunk := None\<rparr>)\<rparr>,
                        Returned))))"

text \<open>
  \<open>combinedData.set(source, offset)\<close> of line 485: the bytes of \<open>source\<close> overwrite the
  target from \<open>offset\<close> on; a source that does not fit raises a \<open>RangeError\<close>.
\<close>

definition uint8Set :: "bytes \<Rightarrow> bytes \<Rightarrow> nat \<Rightarrow> bytes option" where
  "uint8Set target source offset =
     (if offset + length source \<le> length target
      then Some (take offset target @ source @ drop (offset + length source) target)
      else None)"

text \<open>
  The loop of lines 484 to 487 over the chunks that are left. \<open>chunk.buffer || chunk\<close> is
  the buffer of a \<open>Uint8Array\<close> and an \<open>ArrayBuffer\<close> itself: the bytes of the chunk, a
  \<open>Uint8Array\<close> of the codec being a view of the whole of its buffer. The offset goes
  through the same sum as the total, and \<open>set\<close> takes an offset that is \<open>NaN\<close> for zero.
\<close>

fun combine :: "buffer list \<Rightarrow> bytes \<Rightarrow> number \<Rightarrow> bytes option" where
  "combine [] combinedData offset = Some combinedData"
| "combine (chunk # chunks) combinedData offset =
     (case uint8Set combinedData (bytesOf chunk) (toInteger offset) of
        None \<Rightarrow> None
      | Some combinedData' \<Rightarrow>
          combine chunks combinedData' (add offset (byteLengthOrLength chunk)))"

text \<open>
  Lines 476 to 512. The total of line 480 is \<open>NaN\<close> as soon as one chunk is an empty
  \<open>ArrayBuffer\<close>; the buffer of line 481 then has length zero, and \<open>set\<close> throws for the
  first chunk that is not empty. Reading \<open>incomingFile.mimeType\<close> at line 490 throws when
  no transfer is active. Up to either throw only a time stamp has been written.
\<close>

definition handleTransferComplete :: "state \<Rightarrow> state \<times> outcome" where
  "handleTransferComplete s =
     (let totalLength =
            foldl (\<lambda>sum chunk. add sum (byteLengthOrLength chunk)) (Num 0) (receivedChunks s)
      in case combine (receivedChunks s) (replicate (toInteger totalLength) 0) (Num 0) of
           None \<Rightarrow> (s, Threw RangeError)
         | Some combinedData \<Rightarrow>
             (case incomingFile s of
                None \<Rightarrow> (s, Threw TypeError)
              | Some f \<Rightarrow>
                  (s\<lparr>fileList := fileList s @
                        [\<lparr>shownName = inName f, shownSize = inSize f,
                          blobType = (if inMimeType f = [] then ''application/octet-stream''
                                      else inMimeType f),
                          blobData = combinedData\<rparr>],
                      incomingFile := None,
                      receivedChunks := [],
                      receivedSize := Num 0\<rparr>,
                   Returned)))"

text \<open>
  Lines 392 to 411. Storing a chunk header at line 401 assigns to a property of
  \<open>incomingFile\<close> and throws when that is \<open>null\<close>.
\<close>

fun handleDataChannelMessage :: "frame \<Rightarrow> state \<Rightarrow> state \<times> outcome" where
  "handleDataChannelMessage (Text (MetadataMsg m)) s = (handleFileMetadata m s, Returned)"
| "handleDataChannelMessage (Text (ChunkMsg h)) s =
     (case incomingFile s of
        None \<Rightarrow> (s, Threw TypeError)
      | Some f \<Rightarrow> (s\<lparr>incomingFile := Some (f\<lparr>currentChunk := Some h\<rparr>)\<rparr>, Returned))"
| "handleDataChannelMessage (Text CompleteMsg) s = handleTransferComplete s"
| "handleDataChannelMessage (Text (OtherMsg t)) s = (s, Returned)"
| "handleDataChannelMessage (Binary data) s = handleChunkData data s"

text \<open>
  The channel raises one \<open>message\<close> event per frame, in order; a handler that throws
  ends its own event only. \<open>receive\<close> runs the handler over the frames and keeps every
  outcome.
\<close>

fun receive :: "frame list \<Rightarrow> state \<Rightarrow> state \<times> outcome list" where
  "receive [] s = (s, [])"
| "receive (fr # frs) s =
     (case handleDataChannelMessage fr s of
        (s', out) \<Rightarrow> (case receive frs s' of (s'', outs) \<Rightarrow> (s'', out # outs)))"

section \<open>The sender\<close>

text \<open>
  The browser's side of the channel, after the WebRTC interface: \<open>send\<close> queues the
  frame and raises \<open>bufferedAmount\<close> by its bytes (the UTF-8 length of a text frame,
  given by the parameter \<open>jb\<close> for the text \<open>JSON.stringify\<close> makes; the byte length of a
  binary frame). The amount falls only in tasks of the transport, which run while the
  script is suspended in an \<open>await\<close>; \<open>drained d\<close> is one such task that has put \<open>d\<close> bytes
  on the wire.
\<close>

definition frameBytes :: "(message \<Rightarrow> nat) \<Rightarrow> frame \<Rightarrow> nat" where
  "frameBytes jb fr = (case fr of Text m \<Rightarrow> jb m | Binary b \<Rightarrow> length b)"

definition send :: "(message \<Rightarrow> nat) \<Rightarrow> frame \<Rightarrow> channel \<Rightarrow> channel" where
  "send jb fr ch =
     ch\<lparr>bufferedAmount := bufferedAmount ch + frameBytes jb fr, outbox := outbox ch @ [fr]\<rparr>"

definition drained :: "nat \<Rightarrow> channel \<Rightarrow> channel" where
  "drained d ch = ch\<lparr>bufferedAmount := bufferedAmount ch - d\<rparr>"

text \<open>
  Lines 278 to 283: the listener resolves the promise at the first \<open>bufferedamountlow\<close>
  event, which the channel raises when a task of the transport brings the amount from
  above \<open>bufferedAmountLowThreshold\<close> to it or below. The list holds the tasks of the
  transport still to come. The result is the channel as the tasks leave it, with the
  tasks not yet run when the promise is resolved, or \<open>None\<close> when the list ends before
  the event and the promise stays pending.
\<close>

fun onBufferLow :: "channel \<Rightarrow> nat \<Rightarrow> nat list \<Rightarrow> channel \<times> nat list option" where
  "onBufferLow channel threshold [] = (channel, None)"
| "onBufferLow channel threshold (d # ds) =
     (if bufferedAmount (drained d channel) \<le> threshold then (drained d channel, Some ds)
      else onBufferLow (drained d channel) threshold ds)"

text \<open>Lines 268 to 285.\<close>

definition waitForBufferDrain ::
  "channel \<Rightarrow> nat \<Rightarrow> nat list \<Rightarrow> channel \<times> nat list option" where
  "waitForBufferDrain channel threshold ds =
     (if bufferedAmount channel \<le> threshold then (channel, Some ds)
      else onBufferLow channel threshold ds)"

text \<open>
  \<open>buffer.slice(start, end)\<close> for \<open>0 \<le> start\<close>: both ends are clamped to the length, and
  an end before the start gives the empty buffer.
\<close>

definition slice :: "bytes \<Rightarrow> nat \<Rightarrow> nat \<Rightarrow> bytes" where
  "slice buffer start end' = take (end' - start) (drop start buffer)"

text \<open>\<open>Math.ceil(size / CHUNK_SIZE)\<close> of lines 326 and 335.\<close>

definition chunkCount :: "nat \<Rightarrow> nat" where
  "chunkCount byteLength = nat \<lceil>real byteLength / real CHUNK_SIZE\<rceil>"

text \<open>
  What the loop of \<open>sendFile\<close> changes: the channel, the benchmark, the warnings logged,
  and the tasks of the transport that are still to come.
\<close>

record sending =
  chan :: channel
  bench :: benchmark
  diags :: "diagnostic list"
  pending :: "nat list"

text \<open>
  One pass through the body of the loop, lines 338 to 382. \<open>compressData\<close> throws before
  anything is sent or counted. \<open>chunkToSend.byteLength || chunkToSend.length\<close> is the byte
  length of what is sent in both cases.
\<close>

definition sendChunk ::
  "(message \<Rightarrow> nat) \<Rightarrow> codec option \<Rightarrow> bool \<Rightarrow> int \<Rightarrow> bytes \<Rightarrow> nat \<Rightarrow> sending
     \<Rightarrow> sending \<times> outcome" where
  "sendChunk jb zc useCompression level arrayBuffer i l =
     (let start = i * CHUNK_SIZE;
          end' = min (start + CHUNK_SIZE) (length arrayBuffer);
          chunk = slice arrayBuffer start end'
      in case (if useCompression then
                 (case compressData zc chunk level of
                    Inl e \<Rightarrow> Inl e
                  | Inr d \<Rightarrow>
                      Inr (d, (bench l)\<lparr>benchCompressedSize :=
                                           benchCompressedSize (bench l) + length d\<rparr>))
               else
                 Inr (chunk, (bench l)\<lparr>benchCompressedSize :=
                                         benchCompressedSize (bench l) + length chunk\<rparr>)) of
           Inl e \<Rightarrow> (l, Threw e)
         | Inr (chunkToSend, b) \<Rightarrow>
             (let chunkHeader = \<lparr>index = i, originalSize = length chunk,
                                 compressedSize = length chunkToSend\<rparr>;
                  ch = send jb (Binary chunkToSend)
                         (send jb (Text (ChunkMsg chunkHeader)) (chan l));
                  l1 = l\<lparr>chan := ch, bench := b\<lparr>chunksSent := chunksSent b + 1\<rparr>\<rparr>
              in if bufferedAmount ch > BUFFER_THRESHOLD then
                   (let l2 = l1\<lparr>diags := diags l1 @ [BufferFull (bufferedAmount ch)]\<rparr>
                    in case waitForBufferDrain ch BUFFER_THRESHOLD (pending l2) of
                         (ch', None) \<Rightarrow> (l2\<lparr>chan := ch', pending := []\<rparr>, Suspended)
                       | (ch', Some ds) \<Rightarrow> (l2\<lparr>chan := ch', pending := ds\<rparr>, Returned))
                 else (l1, Returned)))"

text \<open>The loop of line 337, from index \<open>i\<close> on.\<close>

function sendChunks ::
  "(message \<Rightarrow> nat) \<Rightarrow> codec option \<Rightarrow> bool \<Rightarrow> int \<Rightarrow> bytes \<Rightarrow> nat \<Rightarrow> nat \<Rightarrow> sending
     \<Rightarrow> sending \<times> outcome" where
  "sendChunks jb zc useCompression level arrayBuffer totalChunks' i l =
     (if i < totalChunks' then
        (case sendChunk jb zc useCompression level arrayBuffer i l of
           (l', Returned) \<Rightarrow> sendChunks jb zc useCompression level arrayBuffer totalChunks' (i + 1) l'
         | (l', out) \<Rightarrow> (l', out))
      else (l, Returned))"
  by pat_completeness auto
termination
  by (relation "measure (\<lambda>(jb, zc, useCompression, level, arrayBuffer, totalChunks', i, l). totalChunks' - i)")
     auto

text \<open>
  The transport as one run of \<open>sendFile\<close> meets it: the byte length of each text frame,
  the bytes that leave the queue while \<open>file.arrayBuffer()\<close> is awaited (line 334), and
  the tasks of the transport that run during the waits of the loop.
\<close>

record transport =
  jsonBytes :: "message \<Rightarrow> nat"
  readDrain :: nat
  waitDrains :: "nat list"

text \<open>Lines 287 to 390.\<close>

definition sendFile :: "transport \<Rightarrow> state \<Rightarrow> state \<times> outcome" where
  "sendFile env s =
     (case fileInput s of
        None \<Rightarrow> (s\<lparr>diagnostics := diagnostics s @ [NoFileSelected]\<rparr>, Returned)
      | Some file \<Rightarrow>
          (case dataChannel s of
             None \<Rightarrow> (s\<lparr>diagnostics := diagnostics s @ [DataChannelNotReady]\<rparr>, Returned)
           | Some dc \<Rightarrow>
               if readyState dc \<noteq> Open
               then (s\<lparr>diagnostics := diagnostics s @ [DataChannelNotReady]\<rparr>, Returned)
               else
                 (let b0 = \<lparr>benchOriginalSize = length (content file),
                            benchCompressedSize = 0, chunksSent = 0, chunksReceived = 0\<rparr>;
                      useCompression = compressionToggle s;
                      level = levelInput s;
                      metadata = \<lparr>name = fileName file, size' = length (content file),
                                  mimeType = fileType file, compressed = useCompression,
                                  compressionLevel = level,
                                  totalChunks = chunkCount (length (content file))\<rparr>;
                      dc1 = send (jsonBytes env) (Text (MetadataMsg metadata)) dc;
                      arrayBuffer = content file;
                      dc2 = drained (readDrain env) dc1;
                      totalChunks' = chunkCount (length arrayBuffer)
                  in case sendChunks (jsonBytes env) (zstdCodec s) useCompression level
                            arrayBuffer totalChunks' 0
                            \<lparr>chan = dc2, bench = b0, diags = diagnostics s,
                             pending = waitDrains env\<rparr> of
                       (l, Returned) \<Rightarrow>
                         (s\<lparr>dataChannel :=
                               Some (send (jsonBytes env) (Text CompleteMsg) (chan l)),
                             benchmark := bench l, diagnostics := diags l\<rparr>,
                          Returned)
                     | (l, out) \<Rightarrow>
                         (s\<lparr>dataChannel := Some (chan l), benchmark := bench l,
                             diagnostics := diags l\<rparr>,
                          out))))"

section \<open>Notions used to state the properties\<close>

text \<open>
  The \<open>i\<close>-th slice of the loop (lines 338 to 340), the bytes the pass puts on the wire for
  it (lines 342 to 355, when \<open>compressData\<close> does not throw), and the two frames the pass
  sends (lines 358 to 367).
\<close>

definition chunkAt :: "bytes \<Rightarrow> nat \<Rightarrow> bytes" where
  "chunkAt arrayBuffer i = take CHUNK_SIZE (drop (i * CHUNK_SIZE) arrayBuffer)"

definition wireOf :: "codec option \<Rightarrow> bool \<Rightarrow> int \<Rightarrow> bytes \<Rightarrow> bytes" where
  "wireOf zc useCompression level chunk =
     (case zc of
        Some c \<Rightarrow> if useCompression then compress c chunk level else chunk
      | None \<Rightarrow> chunk)"

definition chunkFrames :: "codec option \<Rightarrow> bool \<Rightarrow> int \<Rightarrow> bytes \<Rightarrow> nat \<Rightarrow> frame list" where
  "chunkFrames zc useCompression level arrayBuffer i =
     [Text (ChunkMsg
        \<lparr>index = i, originalSize = length (chunkAt arrayBuffer i),
         compressedSize = length (wireOf zc useCompression level (chunkAt arrayBuffer i))\<rparr>),
      Binary (wireOf zc useCompression level (chunkAt arrayBuffer i))]"

text \<open>
  The buffer \<open>handleChunkData\<close> keeps for a chunk with the bytes \<open>c\<close>: the result of the
  codec when the transfer is compressed, the data of the frame otherwise.
\<close>

definition keptAs :: "bool \<Rightarrow> bytes \<Rightarrow> buffer" where
  "keptAs isCompressed c = (if isCompressed then Uint8Array c else ArrayBuffer c)"

text \<open>The bytes one pass of the loop adds to the queue of the channel.\<close>

definition pairBytes ::
  "(message \<Rightarrow> nat) \<Rightarrow> codec option \<Rightarrow> bool \<Rightarrow> int \<Rightarrow> bytes \<Rightarrow> nat \<Rightarrow> nat" where
  "pairBytes jb zc useCompression level arrayBuffer i =
     sum_list (map (frameBytes jb) (chunkFrames zc useCompression level arrayBuffer i))"

text \<open>The metadata of lines 319 to 327 and the frames of a whole transfer.\<close>

definition metadataOf :: "state \<Rightarrow> inputFile \<Rightarrow> metadata" where
  "metadataOf s file =
     \<lparr>name = fileName file, size' = length (content file), mimeType = fileType file,
      compressed = compressionToggle s, compressionLevel = levelInput s,
      totalChunks = chunkCount (length (content file))\<rparr>"

definition transferFrames :: "state \<Rightarrow> inputFile \<Rightarrow> frame list" where
  "transferFrames s file =
     Text (MetadataMsg (metadataOf s file)) #
     concat (map (chunkFrames (zstdCodec s) (compressionToggle s) (levelInput s) (content file))
               [0..<chunkCount (length (content file))]) @
     [Text CompleteMsg]"

text \<open>
  The frames handed to the channel of a page so far, and those a run has added. Over
  the ordered channel the peer receives the added frames in this order.
\<close>

definition sent :: "state \<Rightarrow> frame list" where
  "sent s = (case dataChannel s of None \<Rightarrow> [] | Some dc \<Rightarrow> outbox dc)"

definition emitted :: "state \<Rightarrow> state \<Rightarrow> frame list" where
  "emitted s s' = drop (length (sent s)) (sent s')"

text \<open>The chunk headers and the binary payloads among some frames, in order.\<close>

fun headers :: "frame list \<Rightarrow> chunkHeader list" where
  "headers [] = []"
| "headers (Text (ChunkMsg h) # frs) = h # headers frs"
| "headers (fr # frs) = headers frs"

fun binaries :: "frame list \<Rightarrow> bytes list" where
  "binaries [] = []"
| "binaries (Binary b # frs) = b # binaries frs"
| "binaries (fr # frs) = binaries frs"

text \<open>The receiver's codec undoes the sender's at the level used.\<close>

definition inverts :: "codec \<Rightarrow> codec \<Rightarrow> int \<Rightarrow> bool" where
  "inverts cr cs level = (\<forall>x. decompress cr (compress cs x level) = Some x)"

text \<open>The header that waits for its payload, if any.\<close>

definition pendingHeader :: "state \<Rightarrow> chunkHeader option" where
  "pendingHeader s = (case incomingFile s of None \<Rightarrow> None | Some f \<Rightarrow> currentChunk f)"

text \<open>
  A frame and a receiver state with the three numbers of every chunk header replaced by
  zero: what is left of a run when the values of those fields are disregarded.
\<close>

definition blankHeader :: chunkHeader where
  "blankHeader = \<lparr>index = 0, originalSize = 0, compressedSize = 0\<rparr>"

fun blank :: "frame \<Rightarrow> frame" where
  "blank (Text (ChunkMsg h)) = Text (ChunkMsg blankHeader)"
| "blank fr = fr"

definition blankState :: "state \<Rightarrow> state" where
  "blankState s =
     s\<lparr>incomingFile :=
         map_option (\<lambda>f. f\<lparr>currentChunk := map_option (\<lambda>h. blankHeader) (currentChunk f)\<rparr>)
           (incomingFile s)\<rparr>"

text \<open>
  The same with the metadata reduced to its \<open>compressed\<close> flag, and, in the state, with
  the benchmark and every field of a received file but its bytes reset: what is left
  when only the flag and the binary frames are regarded.
\<close>

fun bare :: "frame \<Rightarrow> frame" where
  "bare (Text (MetadataMsg m)) =
     Text (MetadataMsg \<lparr>name = [], size' = 0, mimeType = [], compressed = compressed m,
                         compressionLevel = 0, totalChunks = 0\<rparr>)"
| "bare (Text (ChunkMsg h)) = Text (ChunkMsg blankHeader)"
| "bare fr = fr"

definition bareState :: "state \<Rightarrow> state" where
  "bareState s =
     s\<lparr>incomingFile :=
         map_option
           (\<lambda>f. \<lparr>inName = [], inSize = 0, inMimeType = [], inCompressed = inCompressed f,
                  inTotalChunks = 0,
                  currentChunk = map_option (\<lambda>h. blankHeader) (currentChunk f)\<rparr>)
           (incomingFile s),
       benchmark := \<lparr>benchOriginalSize = 0, benchCompressedSize = 0, chunksSent = 0,
                     chunksReceived = 0\<rparr>,
       fileList :=
         map (\<lambda>e. \<lparr>shownName = [], shownSize = 0, blobType = [], blobData = blobData e\<rparr>)
           (fileList s)\<rparr>"

text \<open>
  The amounts logged by the \<open>Buffer full\<close> warnings that a run of \<open>sendFile\<close> has
  added, and the bytes queued on the channel of a page.
\<close>

fun fullAmounts :: "diagnostic list \<Rightarrow> nat list" where
  "fullAmounts [] = []"
| "fullAmounts (BufferFull a # ds) = a # fullAmounts ds"
| "fullAmounts (d # ds) = fullAmounts ds"

definition warnedAmounts :: "state \<Rightarrow> state \<Rightarrow> nat list" where
  "warnedAmounts s s' = fullAmounts (drop (length (diagnostics s)) (diagnostics s'))"

definition queued :: "state \<Rightarrow> nat" where
  "queued s = (case dataChannel s of None \<Rightarrow> 0 | Some dc \<Rightarrow> bufferedAmount dc)"


section \<open>Example states\<close>

text \<open>
  Concrete pages, files and transports at which the theorems below are instantiated.
  The example codec puts a zero byte in front of the data and takes it off again.
\<close>

definition demoCodec :: codec where
  "demoCodec =
     \<lparr>compress = (\<lambda>data level. 0 # data),
      decompress = (\<lambda>data. case data of [] \<Rightarrow> None | b # rest \<Rightarrow> Some rest)\<rparr>"

definition demoFile :: inputFile where
  "demoFile = \<lparr>fileName = ''a.txt'', fileType = ''text/plain'', content = [104, 105]\<rparr>"

definition demoSender :: state where
  "demoSender =
     initial\<lparr>dataChannel := Some \<lparr>readyState = Open, bufferedAmount = 0, outbox = []\<rparr>,
             zstdCodec := Some demoCodec, fileInput := Some demoFile\<rparr>"

definition demoTransport :: transport where
  "demoTransport = \<lparr>jsonBytes = (\<lambda>m. 64), readDrain = 0, waitDrains = []\<rparr>"

definition drainingTransport :: transport where
  "drainingTransport = \<lparr>jsonBytes = (\<lambda>m. 64), readDrain = 0, waitDrains = [4096]\<rparr>"

definition demoReceiver :: state where
  "demoReceiver = initial\<lparr>zstdCodec := Some demoCodec\<rparr>"

definition emptyFile :: inputFile where
  "emptyFile = \<lparr>fileName = ''empty.txt'', fileType = [], content = []\<rparr>"

definition emptySender :: state where
  "emptySender =
     initial\<lparr>dataChannel := Some \<lparr>readyState = Open, bufferedAmount = 0, outbox = []\<rparr>,
             fileInput := Some emptyFile\<rparr>"

definition bigFile :: inputFile where
  "bigFile = \<lparr>fileName = ''big.bin'', fileType = [], content = replicate 200000 0\<rparr>"

definition plainSender :: state where
  "plainSender =
     initial\<lparr>dataChannel := Some \<lparr>readyState = Open, bufferedAmount = 0, outbox = []\<rparr>,
             fileInput := Some bigFile, compressionToggle := False\<rparr>"

definition demoMetadata :: metadata where
  "demoMetadata =
     \<lparr>name = ''b.bin'', size' = 10, mimeType = [], compressed = False,
      compressionLevel = 3, totalChunks = 1\<rparr>"

text \<open>A receiver that has taken the metadata of \<open>a.txt\<close>, one header and its payload.\<close>

definition demoActive :: state where
  "demoActive =
     initial\<lparr>incomingFile :=
               Some \<lparr>inName = ''a.txt'', inSize = 5, inMimeType = ''text/plain'',
                     inCompressed = False, inTotalChunks = 1, currentChunk = None\<rparr>,
             receivedChunks := [ArrayBuffer [104, 105]], receivedSize := Num 2,
             benchmark := \<lparr>benchOriginalSize = 5, benchCompressedSize = 2, chunksSent = 0,
                           chunksReceived = 1\<rparr>\<rparr>"

text \<open>
  A page whose channel has 76 bytes left below the threshold, and a transport whose
  only task drains ten bytes.
\<close>

definition nearlyFull :: state where
  "nearlyFull =
     initial\<lparr>dataChannel := Some \<lparr>readyState = Open, bufferedAmount = 1048500, outbox = []\<rparr>,
             zstdCodec := Some demoCodec, fileInput := Some demoFile\<rparr>"

definition slowTransport :: transport where
  "slowTransport = \<lparr>jsonBytes = (\<lambda>m. 64), readDrain = 0, waitDrains = [10]\<rparr>"

text \<open>
  A file of exactly one full chunk; a page that sends it without compression over a
  channel that holds 982884 bytes; a transport whose only task drains 70000 bytes; and
  the page as its first send leaves it, on which the file is sent once more.
\<close>

definition chunkFile :: inputFile where
  "chunkFile = \<lparr>fileName = ''c.bin'', fileType = [], content = replicate 65536 0\<rparr>"

definition busySender :: state where
  "busySender =
     initial\<lparr>dataChannel := Some \<lparr>readyState = Open, bufferedAmount = 982884, outbox = []\<rparr>,
             fileInput := Some chunkFile, compressionToggle := False\<rparr>"

definition steadyTransport :: transport where
  "steadyTransport = \<lparr>jsonBytes = (\<lambda>m. 64), readDrain = 0, waitDrains = [70000]\<rparr>"

definition afterFirstSend :: state where
  "afterFirstSend = fst (sendFile steadyTransport busySender)"


section \<open>Chunk counts and slices\<close>

text \<open>
  \<open>Math.ceil\<close> of the quotient is the integer quotient rounded up; the last slice has
  the remainder of the length, or a full chunk; the slices, put one after the other,
  are the buffer.
\<close>

lemma chunkCount_div: "chunkCount n = (n + CHUNK_SIZE - 1) div CHUNK_SIZE"
proof -
  have "\<lceil>real n / real CHUNK_SIZE\<rceil> = \<lceil>real_of_int (int n) / real_of_int (int CHUNK_SIZE)\<rceil>" by simp
  also have "\<dots> = - (- int n div int CHUNK_SIZE)" by (rule ceiling_divide_eq_div)
  finally have a: "chunkCount n = nat (- (- int n div 65536))" by (simp add: chunkCount_def CHUNK_SIZE_def)
  have b: "- (- int n div 65536) = int ((n + 65535) div 65536)" by (simp add: zdiv_int) 
  show ?thesis unfolding a b by (simp add: CHUNK_SIZE_def)
qed

lemma chunkCount_0: "chunkCount 0 = 0"
  by (simp add: chunkCount_def)

lemma chunkCount_int: "int (chunkCount n) = \<lceil>real n / real CHUNK_SIZE\<rceil>"
proof -
  have "0 \<le> real n / real CHUNK_SIZE" by simp
  then have "0 \<le> \<lceil>real n / real CHUNK_SIZE\<rceil>" by linarith
  then show ?thesis by (simp add: chunkCount_def)
qed

lemma chunkCount_pos: "0 < n \<Longrightarrow> 0 < chunkCount n"
  by (simp add: chunkCount_div CHUNK_SIZE_def)

lemma ceil_div_cases:
  fixes c :: nat
  assumes "0 < c"
  shows "(L + c - 1) div c = (if L mod c = 0 then L div c else L div c + 1)"
proof (cases "L mod c = 0")
  case True
  then have "c dvd L" by (simp add: dvd_eq_mod_eq_0)
  then obtain q where q: "L = q * c" by (auto simp: dvd_def mult.commute)
  have "(q * c + c - 1) div c = q"
  proof -
    have a: "q * c + c - 1 = q * c + (c - 1)" using assms by simp
    have b: "(c - 1) div c = 0" using assms by simp
    have "(q * c + (c - 1)) div c = q + (c - 1) div c"
      using assms by (simp only: div_mult_self3)
    then show ?thesis by (simp only: a b add_0_right)
  qed
  with True q assms show ?thesis by simp
next
  case False
  define r where "r = L mod c"
  define q where "q = L div c"
  have L: "L = q * c + r" by (simp add: q_def r_def)
  have r: "0 < r" "r < c" using False assms by (simp_all add: r_def)
  have "L + c - 1 = (q + 1) * c + (r - 1)" using r by (simp add: L)
  moreover have "r - 1 < c" using r by simp
  ultimately have "(L + c - 1) div c = q + 1"
    by (metis add.commute div_mult_self1 div_less add_cancel_right_left assms less_numeral_extra(3) mult.commute)
  with False show ?thesis by (simp add: q_def)
qed

lemma last_chunk_length:
  fixes c :: nat
  assumes "0 < c" "0 < L"
  shows "min c (L - ((L + c - 1) div c - 1) * c) = (if L mod c = 0 then c else L mod c)"
proof (cases "L mod c = 0")
  case True
  then have "c dvd L" by (simp add: dvd_eq_mod_eq_0)
  then obtain q where q: "L = q * c" by (auto simp: dvd_def mult.commute)
  with assms have "0 < q" by (cases q) simp_all
  then have d: "q * c - (q - 1) * c = c" by (cases q) simp_all
  have "(L + c - 1) div c = L div c" using True ceil_div_cases [OF assms(1), of L] by simp
  also have "\<dots> = q" using assms q by simp
  finally have "min c (L - ((L + c - 1) div c - 1) * c) = min c (q * c - (q - 1) * c)"
    by (simp only: q)
  then have "min c (L - ((L + c - 1) div c - 1) * c) = c" by (simp only: d min.idem)
  then show ?thesis using True by simp
next
  case False
  have a: "L - (L div c) * c = L mod c" by (simp add: minus_div_mult_eq_mod)
  have b: "L mod c < c" using assms by simp
  have "(L + c - 1) div c = L div c + 1" using False ceil_div_cases [OF assms(1), of L] by simp
  then have "min c (L - ((L + c - 1) div c - 1) * c) = min c (L - (L div c) * c)"
    by (simp only: add_diff_cancel_right')
  also have "\<dots> = L mod c" using b by (simp add: a)
  finally show ?thesis using False by simp
qed

lemma slice_chunkAt:
  "slice arrayBuffer (i * CHUNK_SIZE) (min (i * CHUNK_SIZE + CHUNK_SIZE) (length arrayBuffer))
     = chunkAt arrayBuffer i"
  by (simp add: slice_def chunkAt_def min_def)

lemma length_chunkAt: "length (chunkAt xs i) = min CHUNK_SIZE (length xs - i * CHUNK_SIZE)"
  by (simp add: chunkAt_def min.commute)

lemma last_originalSize:
  assumes "0 < length xs"
  shows "length (chunkAt xs (chunkCount (length xs) - 1)) =
     (if length xs mod CHUNK_SIZE = 0 then CHUNK_SIZE else length xs mod CHUNK_SIZE)"
proof -
  have c: "0 < CHUNK_SIZE" by (simp add: CHUNK_SIZE_def)
  show ?thesis
    unfolding length_chunkAt chunkCount_div
    by (rule last_chunk_length [OF c assms])
qed

lemma take_chunks:
  "concat (map (chunkAt xs) [0..<n]) = take (n * CHUNK_SIZE) xs"
proof (induction n)
  case 0
  show ?case by simp
next
  case (Suc n)
  have "take (Suc n * CHUNK_SIZE) xs = take (n * CHUNK_SIZE + CHUNK_SIZE) xs"
    by (simp add: add.commute)
  also have "\<dots> = take (n * CHUNK_SIZE) xs @ take CHUNK_SIZE (drop (n * CHUNK_SIZE) xs)"
    by (rule take_add)
  finally show ?case using Suc by (simp add: chunkAt_def)
qed

lemma chunkCount_covers: "length xs \<le> chunkCount (length xs) * CHUNK_SIZE"
proof -
  have "length xs \<le> ((length xs + 65535) div 65536) * 65536"
    using div_mult_mod_eq [of "length xs + 65535" 65536]
      mod_less_divisor [of 65536 "length xs + 65535"] by linarith
  then show ?thesis by (simp add: chunkCount_div CHUNK_SIZE_def)
qed

lemma concat_chunks: "concat (map (chunkAt xs) [0..<chunkCount (length xs)]) = xs"
  using chunkCount_covers [of xs] by (simp add: take_chunks)

lemma chunkAt_nonempty:
  assumes "i < chunkCount (length xs)"
  shows "chunkAt xs i \<noteq> []"
proof -
  from assms have "i < (length xs + 65535) div 65536"
    by (simp add: chunkCount_div CHUNK_SIZE_def)
  then have "i * 65536 < length xs"
    using div_mult_mod_eq [of "length xs + 65535" 65536] by linarith
  then have "0 < length (chunkAt xs i)" by (simp add: length_chunkAt CHUNK_SIZE_def)
  then show ?thesis by auto
qed

section \<open>Reassembly\<close>

text \<open>
  When no accumulated chunk is an empty \<open>ArrayBuffer\<close>, the lengths add up to a number,
  the loop over \<open>combinedData.set\<close> writes each chunk behind the one before, no call is
  out of range, and the buffer ends as the concatenation of the chunks in their order.
  When one is, and some chunk has a byte, the total is \<open>NaN\<close>, the buffer is empty and
  \<open>set\<close> throws.
\<close>

lemma bytesOf_keptAs: "bytesOf (keptAs isCompressed c) = c"
  by (simp add: keptAs_def)

lemma byteLengthOrLength_Num:
  "c \<noteq> ArrayBuffer [] \<Longrightarrow> byteLengthOrLength c = Num (length (bytesOf c))"
  by (cases c) auto

lemma totalLength_Num:
  "ArrayBuffer [] \<notin> set chunks \<Longrightarrow>
   foldl (\<lambda>sum chunk. add sum (byteLengthOrLength chunk)) (Num n) chunks =
     Num (n + sum_list (map (\<lambda>c. length (bytesOf c)) chunks))"
proof (induction chunks arbitrary: n)
  case Nil
  show ?case by simp
next
  case (Cons c cs)
  then have "c \<noteq> ArrayBuffer []" "ArrayBuffer [] \<notin> set cs" by auto
  then show ?case using Cons.IH by (simp add: byteLengthOrLength_Num add.assoc)
qed

lemma combine_concat:
  "ArrayBuffer [] \<notin> set chunks \<Longrightarrow>
   offset + sum_list (map (\<lambda>c. length (bytesOf c)) chunks) \<le> length buf \<Longrightarrow>
   combine chunks buf (Num offset) =
     Some (take offset buf @ concat (map bytesOf chunks) @
           drop (offset + sum_list (map (\<lambda>c. length (bytesOf c)) chunks)) buf)"
proof (induction chunks arbitrary: buf offset)
  case Nil
  then show ?case by simp
next
  case (Cons c cs)
  let ?c = "bytesOf c"
  let ?rest = "sum_list (map (\<lambda>c. length (bytesOf c)) cs)"
  let ?b = "take offset buf @ ?c @ drop (offset + length ?c) buf"
  from Cons.prems(1) have ne: "c \<noteq> ArrayBuffer []" "ArrayBuffer [] \<notin> set cs" by auto
  from Cons.prems(2) have le: "offset + length ?c \<le> length buf" by simp
  then have len: "length ?b = length buf" by simp
  have set: "uint8Set buf ?c (toInteger (Num offset)) = Some ?b"
    using le by (simp add: uint8Set_def)
  have nxt: "add (Num offset) (byteLengthOrLength c) = Num (offset + length ?c)"
    by (simp add: byteLengthOrLength_Num [OF ne(1)])
  have tk: "take (offset + length ?c) ?b = take offset buf @ ?c" using le by simp
  have dr: "drop (offset + length ?c + ?rest) ?b = drop (offset + length ?c + ?rest) buf"
    using le by (simp add: ac_simps)
  have "combine cs ?b (Num (offset + length ?c)) =
     Some (take (offset + length ?c) ?b @ concat (map bytesOf cs) @
           drop (offset + length ?c + ?rest) ?b)"
    using Cons.prems(2) len ne(2) by (intro Cons.IH) simp_all
  then have "combine cs ?b (Num (offset + length ?c)) =
     Some (take offset buf @ ?c @ concat (map bytesOf cs) @
           drop (offset + length ?c + ?rest) buf)"
    by (simp only: tk dr append_assoc)
  moreover have "concat (map bytesOf (c # cs)) = ?c @ concat (map bytesOf cs)" by simp
  moreover have "sum_list (map (\<lambda>c. length (bytesOf c)) (c # cs)) = length ?c + ?rest" by simp
  ultimately show ?case
    by (simp only: combine.simps set nxt option.case add.assoc append_assoc)
qed

lemma combine_all:
  assumes "ArrayBuffer [] \<notin> set chunks"
  shows "combine chunks
           (replicate (toInteger (foldl (\<lambda>sum chunk. add sum (byteLengthOrLength chunk))
              (Num 0) chunks)) 0) (Num 0)
         = Some (concat (map bytesOf chunks))"
  using combine_concat [OF assms, of 0
      "replicate (sum_list (map (\<lambda>c. length (bytesOf c)) chunks)) 0"]
  by (simp add: totalLength_Num [OF assms])

lemma handleTransferComplete_active:
  assumes "incomingFile r = Some f" "ArrayBuffer [] \<notin> set (receivedChunks r)"
  shows "handleTransferComplete r =
    (r\<lparr>fileList := fileList r @
          [\<lparr>shownName = inName f, shownSize = inSize f,
            blobType = (if inMimeType f = [] then ''application/octet-stream'' else inMimeType f),
            blobData = concat (map bytesOf (receivedChunks r))\<rparr>],
        incomingFile := None, receivedChunks := [], receivedSize := Num 0\<rparr>, Returned)"
  using assms(1) by (simp add: handleTransferComplete_def combine_all [OF assms(2)])

lemma totalLength_NaN:
  "foldl (\<lambda>sum chunk. add sum (byteLengthOrLength chunk)) NaN chunks = NaN"
  by (induction chunks) simp_all

lemma totalLength_empty_ArrayBuffer:
  "ArrayBuffer [] \<in> set chunks \<Longrightarrow>
   foldl (\<lambda>sum chunk. add sum (byteLengthOrLength chunk)) n chunks = NaN"
proof (induction chunks arbitrary: n)
  case Nil
  then show ?case by simp
next
  case (Cons c cs)
  show ?case
  proof (cases "c = ArrayBuffer []")
    case True
    then have "add n (byteLengthOrLength c) = NaN" by (cases n) simp_all
    then show ?thesis by (simp add: totalLength_NaN)
  next
    case False
    with Cons.prems have "ArrayBuffer [] \<in> set cs" by simp
    then show ?thesis using Cons.IH by simp
  qed
qed

lemma combine_out_of_range:
  "\<exists>c\<in>set chunks. bytesOf c \<noteq> [] \<Longrightarrow> combine chunks [] offset = None"
proof (induction chunks arbitrary: offset)
  case Nil
  then show ?case by simp
next
  case (Cons c cs)
  show ?case
  proof (cases "bytesOf c = []")
    case True
    with Cons.prems have "\<exists>c\<in>set cs. bytesOf c \<noteq> []" by simp
    then have "combine cs [] (add offset (byteLengthOrLength c)) = None" by (rule Cons.IH)
    then show ?thesis using True by (simp add: uint8Set_def)
  next
    case False
    then show ?thesis by (simp add: uint8Set_def)
  qed
qed

lemma handleTransferComplete_out_of_range:
  assumes "ArrayBuffer [] \<in> set (receivedChunks r)" "\<exists>c\<in>set (receivedChunks r). bytesOf c \<noteq> []"
  shows "handleTransferComplete r = (r, Threw RangeError)"
  using assms
  by (simp add: handleTransferComplete_def totalLength_empty_ArrayBuffer combine_out_of_range)

section \<open>Frames of a transfer\<close>

text \<open>
  The headers and binary frames among the frames of a transfer, their number, their
  bytes, and the prefix of a transfer that ends with the header of chunk \<open>i\<close>.
\<close>

lemma headers_append: "headers (xs @ ys) = headers xs @ headers ys"
  by (induction xs rule: headers.induct) simp_all

lemma binaries_append: "binaries (xs @ ys) = binaries xs @ binaries ys"
  by (induction xs rule: binaries.induct) simp_all

lemma headers_chunks:
  "headers (concat (map (chunkFrames zc uc level ab) ixs)) =
     map (\<lambda>i. \<lparr>index = i, originalSize = length (chunkAt ab i),
                compressedSize = length (wireOf zc uc level (chunkAt ab i))\<rparr>) ixs"
  by (induction ixs) (simp_all add: headers_append chunkFrames_def)

lemma binaries_chunks:
  "binaries (concat (map (chunkFrames zc uc level ab) ixs)) =
     map (\<lambda>i. wireOf zc uc level (chunkAt ab i)) ixs"
  by (induction ixs) (simp_all add: binaries_append chunkFrames_def)

lemma headers_frames:
  "headers (Text (MetadataMsg m) # concat (map (chunkFrames zc uc level ab) ixs) @
      (if b then [Text CompleteMsg] else [])) =
     map (\<lambda>i. \<lparr>index = i, originalSize = length (chunkAt ab i),
                compressedSize = length (wireOf zc uc level (chunkAt ab i))\<rparr>) ixs"
  by (simp add: headers_append headers_chunks)

lemma binaries_frames:
  "binaries (Text (MetadataMsg m) # concat (map (chunkFrames zc uc level ab) ixs) @
      (if b then [Text CompleteMsg] else [])) =
     map (\<lambda>i. wireOf zc uc level (chunkAt ab i)) ixs"
  by (simp add: binaries_append binaries_chunks)

lemma headers_transfer:
  "headers (transferFrames s f) =
     map (\<lambda>i. \<lparr>index = i, originalSize = length (chunkAt (content f) i),
                compressedSize = length (wireOf (zstdCodec s) (compressionToggle s) (levelInput s)
                                   (chunkAt (content f) i))\<rparr>)
       [0..<chunkCount (length (content f))]"
  by (simp add: transferFrames_def headers_append headers_chunks)

lemma binaries_transfer:
  "binaries (transferFrames s f) =
     map (\<lambda>i. wireOf (zstdCodec s) (compressionToggle s) (levelInput s) (chunkAt (content f) i))
       [0..<chunkCount (length (content f))]"
  by (simp add: transferFrames_def binaries_append binaries_chunks)

lemma length_chunks: "length (concat (map (chunkFrames zc uc level ab) ixs)) = 2 * length ixs"
  by (induction ixs) (simp_all add: chunkFrames_def)

lemma wireOf_plain: "wireOf zc False level chunk = chunk"
  by (simp add: wireOf_def split: option.splits)

lemma frameBytes_chunks:
  "sum_list (map (frameBytes jb) (concat (map (chunkFrames zc uc level ab) ixs))) =
     sum_list (map (pairBytes jb zc uc level ab) ixs)"
  by (induction ixs) (simp_all add: pairBytes_def)

lemma take_frames:
  assumes "i < k"
  shows "take (2 * i + 2)
           (x # concat (map (chunkFrames zc uc level ab) [0..<k]) @ rest) =
     x # concat (map (chunkFrames zc uc level ab) [0..<i]) @
     [Text (ChunkMsg \<lparr>index = i, originalSize = length (chunkAt ab i),
         compressedSize = length (wireOf zc uc level (chunkAt ab i))\<rparr>)]"
proof -
  let ?cf = "chunkFrames zc uc level ab"
  have "[0..<i + (k - i)] = [0..<i] @ [i..<i + (k - i)]"
    by (rule upt_add_eq_append) simp
  moreover have "i + (k - i) = k" using assms by simp
  moreover have "[i..<k] = i # [i + 1..<k]" using assms by (simp add: upt_conv_Cons)
  ultimately have "[0..<k] = [0..<i] @ i # [i + 1..<k]" by simp
  then have "concat (map ?cf [0..<k]) =
      concat (map ?cf [0..<i]) @ ?cf i @ concat (map ?cf [i + 1..<k])"
    by simp
  then have t: "x # concat (map ?cf [0..<k]) @ rest =
      x # concat (map ?cf [0..<i]) @ (?cf i @ concat (map ?cf [i + 1..<k]) @ rest)"
    by simp
  have len: "length (concat (map ?cf [0..<i])) = 2 * i" by (simp add: length_chunks)
  show ?thesis
    unfolding t by (simp add: len chunkFrames_def)
qed

section \<open>The queue of the channel\<close>

text \<open>
  Waiting changes the queued amount only: it ends at or below the threshold when the
  promise is resolved, and above it when the promise stays pending.
\<close>

lemma outbox_send: "outbox (send jb fr ch) = outbox ch @ [fr]"
  by (simp add: send_def)

lemma bufferedAmount_pair:
  "bufferedAmount (send jb (Binary (wireOf zc uc level (chunkAt ab i)))
      (send jb (Text (ChunkMsg \<lparr>index = i, originalSize = length (chunkAt ab i),
                      compressedSize = length (wireOf zc uc level (chunkAt ab i))\<rparr>)) ch))
   = bufferedAmount ch + pairBytes jb zc uc level ab i"
  by (simp add: send_def pairBytes_def chunkFrames_def)

lemma onBufferLow_outbox:
  "onBufferLow ch t ds = (ch', r) \<Longrightarrow> outbox ch' = outbox ch"
  by (induction ch t ds rule: onBufferLow.induct) (auto simp: drained_def split: if_splits)

lemma waitForBufferDrain_outbox:
  "waitForBufferDrain ch t ds = (ch', r) \<Longrightarrow> outbox ch' = outbox ch"
  by (auto simp: waitForBufferDrain_def split: if_splits dest: onBufferLow_outbox)

lemma onBufferLow_low:
  "onBufferLow ch t ds = (ch', Some ds') \<Longrightarrow> bufferedAmount ch' \<le> t"
  by (induction ch t ds rule: onBufferLow.induct) (auto split: if_splits)

lemma waitForBufferDrain_low:
  "waitForBufferDrain ch t ds = (ch', Some ds') \<Longrightarrow> bufferedAmount ch' \<le> t"
  by (auto simp: waitForBufferDrain_def split: if_splits dest: onBufferLow_low)

lemma onBufferLow_high:
  "t < bufferedAmount ch \<Longrightarrow> onBufferLow ch t ds = (ch', None) \<Longrightarrow> t < bufferedAmount ch'"
  by (induction ch t ds rule: onBufferLow.induct) (auto split: if_splits)

lemma waitForBufferDrain_high:
  assumes "waitForBufferDrain ch t ds = (ch', None)"
  shows "t < bufferedAmount ch'"
proof (cases "bufferedAmount ch \<le> t")
  case True
  with assms show ?thesis by (simp add: waitForBufferDrain_def)
next
  case False
  then have "t < bufferedAmount ch" by simp
  moreover from False assms have "onBufferLow ch t ds = (ch', None)"
    by (simp add: waitForBufferDrain_def)
  ultimately show ?thesis by (rule onBufferLow_high)
qed

section \<open>One pass of the loop\<close>

text \<open>
  A pass throws before it sends (compression on, no codec), or sends the header and
  the payload of its chunk and then goes on or stays suspended.
\<close>

lemma sendChunk_sends:
  assumes "\<not> (uc \<and> zc = None)"
  shows "sendChunk jb zc uc level ab i l =
     (let w = wireOf zc uc level (chunkAt ab i);
          ch = send jb (Binary w)
                 (send jb (Text (ChunkMsg \<lparr>index = i, originalSize = length (chunkAt ab i),
                                            compressedSize = length w\<rparr>)) (chan l));
          l1 = l\<lparr>chan := ch,
                 bench := (bench l)\<lparr>benchCompressedSize := benchCompressedSize (bench l) + length w,
                                   chunksSent := chunksSent (bench l) + 1\<rparr>\<rparr>;
          l2 = l1\<lparr>diags := diags l @ [BufferFull (bufferedAmount ch)]\<rparr>
      in if bufferedAmount ch > BUFFER_THRESHOLD then
           (case waitForBufferDrain ch BUFFER_THRESHOLD (pending l) of
              (ch', None) \<Rightarrow> (l2\<lparr>chan := ch', pending := []\<rparr>, Suspended)
            | (ch', Some ds) \<Rightarrow> (l2\<lparr>chan := ch', pending := ds\<rparr>, Returned))
         else (l1, Returned))"
  using assms
  by (auto simp: sendChunk_def slice_chunkAt compressData_def wireOf_def Let_def
      split: option.splits)

lemma sendChunk_outbox:
  assumes "sendChunk jb zc uc level ab i l = (l', out)"
  shows "((\<exists>e. out = Threw e) \<and> l' = l) \<or>
         ((out = Returned \<or> out = Suspended) \<and>
          outbox (chan l') = outbox (chan l) @ chunkFrames zc uc level ab i)"
proof (cases "uc \<and> zc = None")
  case True
  with assms show ?thesis by (auto simp: sendChunk_def compressData_def Let_def)
next
  case False
  let ?w = "wireOf zc uc level (chunkAt ab i)"
  let ?ch = "send jb (Binary ?w)
               (send jb (Text (ChunkMsg \<lparr>index = i, originalSize = length (chunkAt ab i),
                                          compressedSize = length ?w\<rparr>)) (chan l))"
  have ob: "outbox ?ch = outbox (chan l) @ chunkFrames zc uc level ab i"
    by (simp add: outbox_send chunkFrames_def)
  note body = sendChunk_sends [OF False, of jb level ab i l]
  show ?thesis
  proof (cases "bufferedAmount ?ch > BUFFER_THRESHOLD")
    case False
    with assms body ob show ?thesis by (auto simp: Let_def)
  next
    case True
    obtain ch' r where w: "waitForBufferDrain ?ch BUFFER_THRESHOLD (pending l) = (ch', r)"
      by (cases "waitForBufferDrain ?ch BUFFER_THRESHOLD (pending l)")
    then have "outbox ch' = outbox ?ch" by (rule waitForBufferDrain_outbox)
    with True w assms body ob show ?thesis by (cases r) (auto simp: Let_def)
  qed
qed

lemma sendChunk_cases:
  assumes "sendChunk jb zc uc level ab i l = (l', out)"
  shows "(out = Threw CodecNotInitialized \<and> l' = l \<and> uc \<and> zc = None) \<or>
         (out = Returned \<and> bufferedAmount (chan l) + pairBytes jb zc uc level ab i \<le> BUFFER_THRESHOLD \<and>
            diags l' = diags l \<and> pending l' = pending l \<and>
            bufferedAmount (chan l') = bufferedAmount (chan l) + pairBytes jb zc uc level ab i) \<or>
         (out \<in> {Returned, Suspended} \<and> BUFFER_THRESHOLD < bufferedAmount (chan l) + pairBytes jb zc uc level ab i \<and>
            diags l' = diags l @ [BufferFull (bufferedAmount (chan l) + pairBytes jb zc uc level ab i)] \<and>
            (out = Returned \<longrightarrow> bufferedAmount (chan l') \<le> BUFFER_THRESHOLD) \<and>
            (out = Suspended \<longrightarrow> BUFFER_THRESHOLD < bufferedAmount (chan l')))"
proof (cases "uc \<and> zc = None")
  case True
  with assms show ?thesis by (auto simp: sendChunk_def compressData_def Let_def)
next
  case False
  let ?w = "wireOf zc uc level (chunkAt ab i)"
  let ?ch = "send jb (Binary ?w)
               (send jb (Text (ChunkMsg \<lparr>index = i, originalSize = length (chunkAt ab i),
                                          compressedSize = length ?w\<rparr>)) (chan l))"
  note body = sendChunk_sends [OF False, of jb level ab i l]
  have amt: "bufferedAmount ?ch = bufferedAmount (chan l) + pairBytes jb zc uc level ab i"
    by (rule bufferedAmount_pair)
  show ?thesis
  proof (cases "bufferedAmount ?ch > BUFFER_THRESHOLD")
    case False
    with assms body amt show ?thesis by (auto simp: Let_def)
  next
    case True
    obtain ch' r where w: "waitForBufferDrain ?ch BUFFER_THRESHOLD (pending l) = (ch', r)"
      by (cases "waitForBufferDrain ?ch BUFFER_THRESHOLD (pending l)")
    show ?thesis
    proof (cases r)
      case None
      with w have "BUFFER_THRESHOLD < bufferedAmount ch'" by (auto dest: waitForBufferDrain_high)
      with True None w assms body amt show ?thesis by (auto simp: Let_def)
    next
      case (Some ds)
      with w have "bufferedAmount ch' \<le> BUFFER_THRESHOLD" by (auto dest: waitForBufferDrain_low)
      with True Some w assms body amt show ?thesis by (auto simp: Let_def)
    qed
  qed
qed

section \<open>The loop\<close>

text \<open>
  The loop sends the pairs of consecutive chunks; it waits only above the threshold;
  it returns when the transport drains the queue at every wait.
\<close>

lemma sendChunks_outbox:
  assumes "sendChunks jb zc uc level ab n i l = (l', out)" "i \<le> n"
  shows "\<exists>k. i \<le> k \<and> k \<le> n \<and> (out = Returned \<longrightarrow> k = n) \<and>
           outbox (chan l') = outbox (chan l) @ concat (map (chunkFrames zc uc level ab) [i..<k])"
  using assms
proof (induction jb zc uc level ab n i l rule: sendChunks.induct)
  case (1 jb zc uc level ab n i l)
  show ?case
  proof (cases "i < n")
    case False
    with "1.prems" have "l' = l" "out = Returned" "i = n" by simp_all
    then show ?thesis by (intro exI [of _ n]) simp
  next
    case True
    obtain l1 o1 where sc: "sendChunk jb zc uc level ab i l = (l1, o1)"
      by (cases "sendChunk jb zc uc level ab i l")
    note ob = sendChunk_outbox [OF sc]
    have upt: "[i..<Suc i] = [i]" by simp
    show ?thesis
    proof (cases "o1 = Returned")
      case False
      with True sc "1.prems" have eq: "l' = l1" "out = o1" by (cases o1; simp)+
      from ob show ?thesis
      proof
        assume "(\<exists>e. o1 = Threw e) \<and> l1 = l"
        then show ?thesis using eq True by (intro exI [of _ i]) auto
      next
        assume "(o1 = Returned \<or> o1 = Suspended) \<and>
          outbox (chan l1) = outbox (chan l) @ chunkFrames zc uc level ab i"
        then show ?thesis using eq True False by (intro exI [of _ "Suc i"]) (auto simp: upt)
      qed
    next
      case ret: True
      with True sc "1.prems" have rest: "sendChunks jb zc uc level ab n (i + 1) l1 = (l', out)"
        by simp
      have "\<exists>k. i + 1 \<le> k \<and> k \<le> n \<and> (out = Returned \<longrightarrow> k = n) \<and>
           outbox (chan l') = outbox (chan l1) @ concat (map (chunkFrames zc uc level ab) [i + 1..<k])"
        using True sc ret rest by (intro "1.IH") auto
      then obtain k where k: "i + 1 \<le> k" "k \<le> n" "out = Returned \<longrightarrow> k = n"
        "outbox (chan l') = outbox (chan l1) @ concat (map (chunkFrames zc uc level ab) [i + 1..<k])"
        by blast
      from ob ret have o1: "outbox (chan l1) = outbox (chan l) @ chunkFrames zc uc level ab i"
        by auto
      have "[i..<k] = i # [i + 1..<k]" using k(1) by (simp add: upt_conv_Cons)
      then have "outbox (chan l') = outbox (chan l) @ concat (map (chunkFrames zc uc level ab) [i..<k])"
        using k(4) o1 by simp
      with k show ?thesis by (intro exI [of _ k]) auto
    qed
  qed
qed

lemma fullAmounts_BufferFull: "fullAmounts (map BufferFull ws) = ws"
  by (induction ws) simp_all

lemma sendChunks_backpressure:
  assumes "sendChunks jb zc uc level ab n i l = (l', out)"
    and "bufferedAmount (chan l) \<le> BUFFER_THRESHOLD"
  shows "(\<exists>ws. diags l' = diags l @ map BufferFull ws \<and>
            (\<forall>w\<in>set ws. BUFFER_THRESHOLD < w \<and>
               (\<exists>k. i \<le> k \<and> k < n \<and> w \<le> BUFFER_THRESHOLD + pairBytes jb zc uc level ab k)) \<and>
            (out = Returned \<longrightarrow> ws = [] \<longrightarrow>
               bufferedAmount (chan l') =
                 bufferedAmount (chan l) + sum_list (map (pairBytes jb zc uc level ab) [i..<n]))) \<and>
         (out = Returned \<longrightarrow> bufferedAmount (chan l') \<le> BUFFER_THRESHOLD) \<and>
         (out = Suspended \<longrightarrow> BUFFER_THRESHOLD < bufferedAmount (chan l'))"
  using assms
proof (induction jb zc uc level ab n i l rule: sendChunks.induct)
  case (1 jb zc uc level ab n i l)
  show ?case
  proof (cases "i < n")
    case False
    with "1.prems" have "l' = l" "out = Returned" by simp_all
    with False "1.prems" show ?thesis by simp
  next
    case True
    obtain l1 o1 where sc: "sendChunk jb zc uc level ab i l = (l1, o1)"
      by (cases "sendChunk jb zc uc level ab i l")
    note cases = sendChunk_cases [OF sc]
    let ?w = "bufferedAmount (chan l) + pairBytes jb zc uc level ab i"
    have one: "BUFFER_THRESHOLD < ?w \<Longrightarrow>
        \<forall>w\<in>set [?w]. BUFFER_THRESHOLD < w \<and>
          (\<exists>k. i \<le> k \<and> k < n \<and> w \<le> BUFFER_THRESHOLD + pairBytes jb zc uc level ab k)"
      using True "1.prems"(2) by auto
    show ?thesis
    proof (cases "o1 = Returned")
      case False
      with True sc "1.prems" have eq: "l' = l1" "out = o1" by (cases o1; simp)+
      from cases False have
        "(o1 = Threw CodecNotInitialized \<and> l1 = l) \<or>
         (o1 = Suspended \<and> BUFFER_THRESHOLD < ?w \<and> diags l1 = diags l @ [BufferFull ?w] \<and>
            BUFFER_THRESHOLD < bufferedAmount (chan l1))"
        by auto
      then show ?thesis
      proof
        assume "o1 = Threw CodecNotInitialized \<and> l1 = l"
        then show ?thesis using eq by simp
      next
        assume a: "o1 = Suspended \<and> BUFFER_THRESHOLD < ?w \<and> diags l1 = diags l @ [BufferFull ?w] \<and>
            BUFFER_THRESHOLD < bufferedAmount (chan l1)"
        have "diags l' = diags l @ map BufferFull [?w]" using a eq by simp
        moreover note one
        ultimately show ?thesis using a eq by blast
      qed
    next
      case ret: True
      with True sc "1.prems" have rest: "sendChunks jb zc uc level ab n (i + 1) l1 = (l', out)"
        by simp
      from cases ret have low1: "bufferedAmount (chan l1) \<le> BUFFER_THRESHOLD" by auto
      have ih: "(\<exists>ws. diags l' = diags l1 @ map BufferFull ws \<and>
            (\<forall>w\<in>set ws. BUFFER_THRESHOLD < w \<and>
               (\<exists>k. i + 1 \<le> k \<and> k < n \<and> w \<le> BUFFER_THRESHOLD + pairBytes jb zc uc level ab k)) \<and>
            (out = Returned \<longrightarrow> ws = [] \<longrightarrow>
               bufferedAmount (chan l') =
                 bufferedAmount (chan l1) + sum_list (map (pairBytes jb zc uc level ab) [i + 1..<n]))) \<and>
         (out = Returned \<longrightarrow> bufferedAmount (chan l') \<le> BUFFER_THRESHOLD) \<and>
         (out = Suspended \<longrightarrow> BUFFER_THRESHOLD < bufferedAmount (chan l'))"
        using True sc ret rest low1 by (intro "1.IH") auto
      then obtain ws where ws: "diags l' = diags l1 @ map BufferFull ws"
        and wsb: "\<forall>w\<in>set ws. BUFFER_THRESHOLD < w \<and>
               (\<exists>k. i + 1 \<le> k \<and> k < n \<and> w \<le> BUFFER_THRESHOLD + pairBytes jb zc uc level ab k)"
        and wse: "out = Returned \<longrightarrow> ws = [] \<longrightarrow>
               bufferedAmount (chan l') =
                 bufferedAmount (chan l1) + sum_list (map (pairBytes jb zc uc level ab) [i + 1..<n])"
        and low: "out = Returned \<longrightarrow> bufferedAmount (chan l') \<le> BUFFER_THRESHOLD"
        and high: "out = Suspended \<longrightarrow> BUFFER_THRESHOLD < bufferedAmount (chan l')"
        by blast
      have wsb': "\<forall>w\<in>set ws. BUFFER_THRESHOLD < w \<and>
               (\<exists>k. i \<le> k \<and> k < n \<and> w \<le> BUFFER_THRESHOLD + pairBytes jb zc uc level ab k)"
      proof
        fix w assume "w \<in> set ws"
        with wsb obtain k where k: "BUFFER_THRESHOLD < w" "i + 1 \<le> k" "k < n"
          "w \<le> BUFFER_THRESHOLD + pairBytes jb zc uc level ab k" by blast
        then have "i \<le> k" by simp
        with k show "BUFFER_THRESHOLD < w \<and>
               (\<exists>k. i \<le> k \<and> k < n \<and> w \<le> BUFFER_THRESHOLD + pairBytes jb zc uc level ab k)"
          by blast
      qed
      have upt: "[i..<n] = i # [i + 1..<n]" using True by (simp add: upt_conv_Cons)
      from cases ret have
        "(diags l1 = diags l \<and> bufferedAmount (chan l1) = ?w) \<or>
         (BUFFER_THRESHOLD < ?w \<and> diags l1 = diags l @ [BufferFull ?w])"
        by auto
      then show ?thesis
      proof
        assume a: "diags l1 = diags l \<and> bufferedAmount (chan l1) = ?w"
        have "diags l' = diags l @ map BufferFull ws" using a ws by simp
        moreover have "out = Returned \<longrightarrow> ws = [] \<longrightarrow>
               bufferedAmount (chan l') =
                 bufferedAmount (chan l) + sum_list (map (pairBytes jb zc uc level ab) [i..<n])"
          using wse a by (simp add: upt)
        ultimately show ?thesis using wsb' low high by blast
      next
        assume a: "BUFFER_THRESHOLD < ?w \<and> diags l1 = diags l @ [BufferFull ?w]"
        have "diags l' = diags l @ map BufferFull (?w # ws)" using a ws by simp
        moreover have "\<forall>w\<in>set (?w # ws). BUFFER_THRESHOLD < w \<and>
               (\<exists>k. i \<le> k \<and> k < n \<and> w \<le> BUFFER_THRESHOLD + pairBytes jb zc uc level ab k)"
          using wsb' one a by auto
        moreover have "out = Returned \<longrightarrow> ?w # ws = [] \<longrightarrow>
               bufferedAmount (chan l') =
                 bufferedAmount (chan l) + sum_list (map (pairBytes jb zc uc level ab) [i..<n])"
          by simp
        ultimately show ?thesis using low high by blast
      qed
    qed
  qed
qed

lemma sendChunks_backpressure_entry:
  assumes "sendChunks jb zc uc level ab n i l = (l', out)"
  shows "(\<exists>ws. diags l' = diags l @ map BufferFull ws \<and>
            (\<forall>w\<in>set ws. BUFFER_THRESHOLD < w \<and>
               (\<exists>k. i \<le> k \<and> k < n \<and>
                  w \<le> max BUFFER_THRESHOLD (bufferedAmount (chan l)) +
                        pairBytes jb zc uc level ab k)) \<and>
            (out = Returned \<longrightarrow> i < n \<longrightarrow>
               BUFFER_THRESHOLD <
                 bufferedAmount (chan l) + sum_list (map (pairBytes jb zc uc level ab) [i..<n]) \<longrightarrow>
               ws \<noteq> [])) \<and>
         (out = Returned \<longrightarrow> i < n \<longrightarrow> bufferedAmount (chan l') \<le> BUFFER_THRESHOLD) \<and>
         (out = Suspended \<longrightarrow> BUFFER_THRESHOLD < bufferedAmount (chan l'))"
proof (cases "i < n")
  case False
  with assms have "l' = l" "out = Returned" by simp_all
  with False show ?thesis by simp
next
  case True
  obtain l1 o1 where sc: "sendChunk jb zc uc level ab i l = (l1, o1)"
    by (cases "sendChunk jb zc uc level ab i l")
  note cases = sendChunk_cases [OF sc]
  let ?e = "bufferedAmount (chan l)"
  let ?w = "?e + pairBytes jb zc uc level ab i"
  have one: "\<forall>w\<in>set [?w]. BUFFER_THRESHOLD < w \<and>
          (\<exists>k. i \<le> k \<and> k < n \<and>
             w \<le> max BUFFER_THRESHOLD ?e + pairBytes jb zc uc level ab k)"
    if "BUFFER_THRESHOLD < ?w"
  proof -
    have "i \<le> i \<and> i < n \<and> ?w \<le> max BUFFER_THRESHOLD ?e + pairBytes jb zc uc level ab i"
      using True by simp
    then have "\<exists>k. i \<le> k \<and> k < n \<and> ?w \<le> max BUFFER_THRESHOLD ?e + pairBytes jb zc uc level ab k"
      by (rule exI)
    with that show ?thesis by simp
  qed
  show ?thesis
  proof (cases "o1 = Returned")
    case False
    with True sc assms have eq: "l' = l1" "out = o1" by (cases o1; simp)+
    from cases False have
      "(o1 = Threw CodecNotInitialized \<and> l1 = l) \<or>
       (o1 = Suspended \<and> BUFFER_THRESHOLD < ?w \<and> diags l1 = diags l @ [BufferFull ?w] \<and>
          BUFFER_THRESHOLD < bufferedAmount (chan l1))"
      by auto
    then show ?thesis
    proof
      assume "o1 = Threw CodecNotInitialized \<and> l1 = l"
      then show ?thesis using eq by simp
    next
      assume a: "o1 = Suspended \<and> BUFFER_THRESHOLD < ?w \<and> diags l1 = diags l @ [BufferFull ?w] \<and>
          BUFFER_THRESHOLD < bufferedAmount (chan l1)"
      have "diags l' = diags l @ map BufferFull [?w]" using a eq by simp
      moreover have "\<forall>w\<in>set [?w]. BUFFER_THRESHOLD < w \<and>
          (\<exists>k. i \<le> k \<and> k < n \<and>
             w \<le> max BUFFER_THRESHOLD ?e + pairBytes jb zc uc level ab k)"
        using a by (intro one) simp
      moreover have "[?w] \<noteq> []" by simp
      ultimately show ?thesis using a eq by blast
    qed
  next
    case ret: True
    with True sc assms have rest: "sendChunks jb zc uc level ab n (i + 1) l1 = (l', out)"
      by simp
    from cases ret have low1: "bufferedAmount (chan l1) \<le> BUFFER_THRESHOLD" by auto
    from sendChunks_backpressure [OF rest low1] obtain ws where
      ws: "diags l' = diags l1 @ map BufferFull ws"
      and wsb: "\<forall>w\<in>set ws. BUFFER_THRESHOLD < w \<and>
             (\<exists>k. i + 1 \<le> k \<and> k < n \<and> w \<le> BUFFER_THRESHOLD + pairBytes jb zc uc level ab k)"
      and wse: "out = Returned \<longrightarrow> ws = [] \<longrightarrow>
             bufferedAmount (chan l') =
               bufferedAmount (chan l1) + sum_list (map (pairBytes jb zc uc level ab) [i + 1..<n])"
      and low: "out = Returned \<longrightarrow> bufferedAmount (chan l') \<le> BUFFER_THRESHOLD"
      and high: "out = Suspended \<longrightarrow> BUFFER_THRESHOLD < bufferedAmount (chan l')"
      by blast
    have wsb': "\<forall>w\<in>set ws. BUFFER_THRESHOLD < w \<and>
             (\<exists>k. i \<le> k \<and> k < n \<and>
                w \<le> max BUFFER_THRESHOLD ?e + pairBytes jb zc uc level ab k)"
    proof
      fix w assume "w \<in> set ws"
      with wsb obtain k where k: "BUFFER_THRESHOLD < w" "i + 1 \<le> k" "k < n"
        "w \<le> BUFFER_THRESHOLD + pairBytes jb zc uc level ab k" by blast
      then have "i \<le> k \<and> k < n \<and> w \<le> max BUFFER_THRESHOLD ?e + pairBytes jb zc uc level ab k"
        by simp
      then have "\<exists>k. i \<le> k \<and> k < n \<and> w \<le> max BUFFER_THRESHOLD ?e + pairBytes jb zc uc level ab k"
        by (rule exI)
      with k(1) show "BUFFER_THRESHOLD < w \<and>
             (\<exists>k. i \<le> k \<and> k < n \<and>
                w \<le> max BUFFER_THRESHOLD ?e + pairBytes jb zc uc level ab k)"
        by simp
    qed
    have upt: "[i..<n] = i # [i + 1..<n]" using True by (simp add: upt_conv_Cons)
    from cases ret have
      "(diags l1 = diags l \<and> bufferedAmount (chan l1) = ?w) \<or>
       (BUFFER_THRESHOLD < ?w \<and> diags l1 = diags l @ [BufferFull ?w])"
      by auto
    then show ?thesis
    proof
      assume a: "diags l1 = diags l \<and> bufferedAmount (chan l1) = ?w"
      have "diags l' = diags l @ map BufferFull ws" using a ws by simp
      moreover have "out = Returned \<longrightarrow> i < n \<longrightarrow>
             BUFFER_THRESHOLD <
               bufferedAmount (chan l) + sum_list (map (pairBytes jb zc uc level ab) [i..<n]) \<longrightarrow>
             ws \<noteq> []"
        using wse low a by (auto simp: upt)
      ultimately show ?thesis using wsb' low high by blast
    next
      assume a: "BUFFER_THRESHOLD < ?w \<and> diags l1 = diags l @ [BufferFull ?w]"
      have "diags l' = diags l @ map BufferFull (?w # ws)" using a ws by simp
      moreover have "\<forall>w\<in>set (?w # ws). BUFFER_THRESHOLD < w \<and>
             (\<exists>k. i \<le> k \<and> k < n \<and>
                w \<le> max BUFFER_THRESHOLD ?e + pairBytes jb zc uc level ab k)"
        using wsb' one a by auto
      moreover have "?w # ws \<noteq> []" by simp
      ultimately show ?thesis using low high by blast
    qed
  qed
qed

lemma sendChunks_returns:
  assumes "\<not> (uc \<and> zc = None)"
    and "n - i \<le> length (pending l)"
    and "\<forall>d\<in>set (pending l).
           bufferedAmount (chan l) + sum_list (map (pairBytes jb zc uc level ab) [i..<n]) \<le> d"
  shows "snd (sendChunks jb zc uc level ab n i l) = Returned"
  using assms
proof (induction jb zc uc level ab n i l rule: sendChunks.induct)
  case (1 jb zc uc level ab n i l)
  show ?case
  proof (cases "i < n")
    case False
    then show ?thesis by simp
  next
    case True
    let ?p = "pairBytes jb zc uc level ab i"
    let ?w = "wireOf zc uc level (chunkAt ab i)"
    let ?ch = "send jb (Binary ?w)
                 (send jb (Text (ChunkMsg \<lparr>index = i, originalSize = length (chunkAt ab i),
                                            compressedSize = length ?w\<rparr>)) (chan l))"
    let ?l1 = "l\<lparr>chan := ?ch,
                 bench := (bench l)\<lparr>benchCompressedSize := benchCompressedSize (bench l) + length ?w,
                                   chunksSent := chunksSent (bench l) + 1\<rparr>\<rparr>"
    let ?l2 = "?l1\<lparr>diags := diags l @ [BufferFull (bufferedAmount ?ch)]\<rparr>"
    have amt: "bufferedAmount ?ch = bufferedAmount (chan l) + ?p" by (rule bufferedAmount_pair)
    have upt: "[i..<n] = i # [i + 1..<n]" using True by (simp add: upt_conv_Cons)
    have sum: "sum_list (map (pairBytes jb zc uc level ab) [i..<n]) =
                 ?p + sum_list (map (pairBytes jb zc uc level ab) [i + 1..<n])"
      by (subst upt) simp
    note body = sendChunk_sends [OF "1.prems"(1), of jb level ab i l]
    show ?thesis
    proof (cases "bufferedAmount ?ch > BUFFER_THRESHOLD")
      case False
      then have sc: "sendChunk jb zc uc level ab i l = (?l1, Returned)"
        by (simp add: body Let_def)
      have "snd (sendChunks jb zc uc level ab n (i + 1) ?l1) = Returned"
      proof (rule "1.IH" [OF True sc [symmetric] refl "1.prems"(1)])
        show "n - (i + 1) \<le> length (pending ?l1)" using "1.prems"(2) by simp
        show "\<forall>d\<in>set (pending ?l1).
           bufferedAmount (chan ?l1) + sum_list (map (pairBytes jb zc uc level ab) [i + 1..<n]) \<le> d"
          using "1.prems"(3) amt by (simp add: sum add.assoc)
      qed
      then show ?thesis using True sc by simp
    next
      case over: True
      from True "1.prems"(2) obtain d ds where pend: "pending l = d # ds"
        by (cases "pending l") simp_all
      have dbig: "bufferedAmount ?ch \<le> d" using "1.prems"(3) pend amt by (simp add: sum)
      then have zero: "bufferedAmount (drained d ?ch) = 0" by (simp add: drained_def)
      have wait: "waitForBufferDrain ?ch BUFFER_THRESHOLD (pending l) = (drained d ?ch, Some ds)"
        using over zero by (simp add: waitForBufferDrain_def pend)
      let ?l3 = "?l2\<lparr>chan := drained d ?ch, pending := ds\<rparr>"
      have sc: "sendChunk jb zc uc level ab i l = (?l3, Returned)"
        using over wait by (simp add: body Let_def)
      have "snd (sendChunks jb zc uc level ab n (i + 1) ?l3) = Returned"
      proof (rule "1.IH" [OF True sc [symmetric] refl "1.prems"(1)])
        show "n - (i + 1) \<le> length (pending ?l3)" using "1.prems"(2) pend by simp
        show "\<forall>d\<in>set (pending ?l3).
           bufferedAmount (chan ?l3) + sum_list (map (pairBytes jb zc uc level ab) [i + 1..<n]) \<le> d"
        proof
          fix d' assume "d' \<in> set (pending ?l3)"
          then have "d' \<in> set (pending l)" by (simp add: pend)
          with "1.prems"(3) have "bufferedAmount (chan l) +
              sum_list (map (pairBytes jb zc uc level ab) [i..<n]) \<le> d'" by blast
          then have "sum_list (map (pairBytes jb zc uc level ab) [i + 1..<n]) \<le> d'"
            by (simp add: sum)
          then show "bufferedAmount (chan ?l3) +
              sum_list (map (pairBytes jb zc uc level ab) [i + 1..<n]) \<le> d'"
            using zero by simp
        qed
      qed
      then show ?thesis using True sc by simp
    qed
  qed
qed

section \<open>Runs of \<open>sendFile\<close>\<close>

text \<open>
  What a run adds to the channel: the metadata, the pairs of the chunks \<open>0\<close> to \<open>k - 1\<close>
  and, when it returns, the completion frame, where \<open>k\<close> is the chunk count then.
\<close>

lemma sendFile_empty:
  assumes "fileInput s = Some f" "content f = []" "dataChannel s = Some dc" "readyState dc = Open"
  shows "sendFile env s =
     (s\<lparr>dataChannel :=
          Some (send (jsonBytes env) (Text CompleteMsg)
                  (drained (readDrain env)
                     (send (jsonBytes env) (Text (MetadataMsg (metadataOf s f))) dc))),
        benchmark := \<lparr>benchOriginalSize = 0, benchCompressedSize = 0, chunksSent = 0,
                      chunksReceived = 0\<rparr>\<rparr>, Returned)"
  using assms by (simp add: sendFile_def chunkCount_0 metadataOf_def Let_def)

lemma sendFile_emitted:
  assumes "fileInput s = Some f" "dataChannel s = Some dc" "readyState dc = Open"
    and "sendFile env s = (s', out)"
  shows "\<exists>k. k \<le> chunkCount (length (content f)) \<and>
           (out = Returned \<longrightarrow> k = chunkCount (length (content f))) \<and>
           emitted s s' =
             Text (MetadataMsg (metadataOf s f)) #
             concat (map (chunkFrames (zstdCodec s) (compressionToggle s) (levelInput s) (content f))
                       [0..<k]) @
             (if out = Returned then [Text CompleteMsg] else [])"
proof -
  let ?n = "chunkCount (length (content f))"
  let ?cf = "chunkFrames (zstdCodec s) (compressionToggle s) (levelInput s) (content f)"
  let ?l0 = "\<lparr>chan = drained (readDrain env)
                 (send (jsonBytes env) (Text (MetadataMsg (metadataOf s f))) dc),
              bench = \<lparr>benchOriginalSize = length (content f),
                            benchCompressedSize = 0, chunksSent = 0, chunksReceived = 0\<rparr>,
              diags = diagnostics s, pending = waitDrains env\<rparr>"
  obtain l o1 where loop:
    "sendChunks (jsonBytes env) (zstdCodec s) (compressionToggle s) (levelInput s) (content f)
       ?n 0 ?l0 = (l, o1)"
    by (cases "sendChunks (jsonBytes env) (zstdCodec s) (compressionToggle s) (levelInput s)
       (content f) ?n 0 ?l0")
  have whole: "sendFile env s =
     (case o1 of
        Returned \<Rightarrow> (s\<lparr>dataChannel := Some (send (jsonBytes env) (Text CompleteMsg) (chan l)),
                        benchmark := bench l, diagnostics := diags l\<rparr>, Returned)
      | _ \<Rightarrow> (s\<lparr>dataChannel := Some (chan l), benchmark := bench l, diagnostics := diags l\<rparr>, o1))"
    using assms(1-3) loop by (simp add: sendFile_def Let_def metadataOf_def split: outcome.splits)
  from whole assms(4) have out: "out = o1" by (cases o1) simp_all
  from sendChunks_outbox [OF loop] obtain k where k: "k \<le> ?n" "o1 = Returned \<longrightarrow> k = ?n"
    "outbox (chan l) = outbox (chan ?l0) @ concat (map ?cf [0..<k])"
    by auto
  have l0: "outbox (chan ?l0) = outbox dc @ [Text (MetadataMsg (metadataOf s f))]"
    by (simp add: drained_def outbox_send)
  have "sent s' = sent s @ Text (MetadataMsg (metadataOf s f)) # concat (map ?cf [0..<k]) @
             (if out = Returned then [Text CompleteMsg] else [])"
    using whole assms(2,4) k(3) l0 out
    by (cases o1) (auto simp: sent_def outbox_send)
  then have "emitted s s' = Text (MetadataMsg (metadataOf s f)) # concat (map ?cf [0..<k]) @
             (if out = Returned then [Text CompleteMsg] else [])"
    by (simp add: emitted_def)
  with k out show ?thesis by (intro exI [of _ k]) auto
qed

lemma emitted_Returned:
  assumes "fileInput s = Some f" "dataChannel s = Some dc" "readyState dc = Open"
    and "sendFile env s = (s', Returned)"
  shows "emitted s s' = transferFrames s f"
  using sendFile_emitted [OF assms] by (auto simp: transferFrames_def)

lemma sendFile_returns:
  assumes "fileInput s = Some f" "dataChannel s = Some dc" "readyState dc = Open"
    and "compressionToggle s \<longrightarrow> zstdCodec s \<noteq> None"
    and "chunkCount (length (content f)) \<le> length (waitDrains env)"
    and "\<forall>d\<in>set (waitDrains env).
           bufferedAmount dc + sum_list (map (frameBytes (jsonBytes env)) (transferFrames s f)) \<le> d"
  shows "snd (sendFile env s) = Returned"
proof -
  let ?n = "chunkCount (length (content f))"
  let ?l0 = "\<lparr>chan = drained (readDrain env)
                 (send (jsonBytes env) (Text (MetadataMsg (metadataOf s f))) dc),
              bench = \<lparr>benchOriginalSize = length (content f),
                            benchCompressedSize = 0, chunksSent = 0, chunksReceived = 0\<rparr>,
              diags = diagnostics s, pending = waitDrains env\<rparr>"
  have c: "\<not> (compressionToggle s \<and> zstdCodec s = None)" using assms(4) by simp
  have le: "bufferedAmount (chan ?l0) \<le> bufferedAmount dc + jsonBytes env (MetadataMsg (metadataOf s f))"
    by (simp add: drained_def send_def frameBytes_def)
  obtain l out where loop:
    "sendChunks (jsonBytes env) (zstdCodec s) (compressionToggle s) (levelInput s) (content f)
       ?n 0 ?l0 = (l, out)"
    by (cases "sendChunks (jsonBytes env) (zstdCodec s) (compressionToggle s) (levelInput s)
       (content f) ?n 0 ?l0")
  have "snd (sendChunks (jsonBytes env) (zstdCodec s) (compressionToggle s) (levelInput s)
       (content f) ?n 0 ?l0) = Returned"
  proof (rule sendChunks_returns [OF c])
    show "?n - 0 \<le> length (pending ?l0)" using assms(5) by simp
    show "\<forall>d\<in>set (pending ?l0). bufferedAmount (chan ?l0) +
            sum_list (map (pairBytes (jsonBytes env) (zstdCodec s) (compressionToggle s)
               (levelInput s) (content f)) [0..<?n]) \<le> d"
    proof
      fix d assume "d \<in> set (pending ?l0)"
      then have "bufferedAmount dc + sum_list (map (frameBytes (jsonBytes env)) (transferFrames s f)) \<le> d"
        using assms(6) by simp
      then show "bufferedAmount (chan ?l0) +
            sum_list (map (pairBytes (jsonBytes env) (zstdCodec s) (compressionToggle s)
               (levelInput s) (content f)) [0..<?n]) \<le> d"
        using le by (simp add: transferFrames_def frameBytes_chunks frameBytes_def)
    qed
  qed
  with loop have "out = Returned" by simp
  with loop show ?thesis
    using assms(1-3) by (simp add: sendFile_def Let_def metadataOf_def)
qed

section \<open>Runs of the receiver\<close>

text \<open>
  The receiver takes a header and its payload into the accumulated chunks, and the
  frames of a whole transfer into one received file. Headers and payloads keep a
  transfer active.
\<close>

lemma receive_append:
  "receive (xs @ ys) s =
     (case receive xs s of (s', o1) \<Rightarrow> (case receive ys s' of (s'', o2) \<Rightarrow> (s'', o1 @ o2)))"
  by (induction xs arbitrary: s) (auto split: prod.splits)

lemma fst_receive_Nil: "fst (receive [] r) = r"
  by simp

lemma fst_receive_append:
  "fst (receive (xs @ ys) r) = fst (receive ys (fst (receive xs r)))"
  by (simp add: receive_append split: prod.splits)

lemma fst_receive_Cons:
  "fst (receive (fr # frs) r) = fst (receive frs (fst (handleDataChannelMessage fr r)))"
  by (simp split: prod.splits)

lemma receive_pair:
  assumes "incomingFile r = Some f" "currentChunk f = None"
    and "inCompressed f \<Longrightarrow> decompressData (zstdCodec r) w = Inr c"
    and "\<not> inCompressed f \<Longrightarrow> w = c"
  shows "receive [Text (ChunkMsg h), Binary w] r =
     (r\<lparr>receivedChunks := receivedChunks r @ [keptAs (inCompressed f) c],
        receivedSize := add (receivedSize r) (byteLengthOrLength (keptAs (inCompressed f) c)),
        benchmark := (benchmark r)\<lparr>benchCompressedSize := benchCompressedSize (benchmark r) + length w,
                                    chunksReceived := chunksReceived (benchmark r) + 1\<rparr>\<rparr>,
      [Returned, Returned])"
  using assms
  by (cases "inCompressed f") (simp_all add: handleChunkData_def Let_def keptAs_def)

lemma receive_chunks:
  assumes "incomingFile r = Some f" "currentChunk f = None"
    and "inCompressed f \<Longrightarrow> uc \<and> (\<exists>cs cr. zc = Some cs \<and> zstdCodec r = Some cr \<and> inverts cr cs level)"
    and "\<not> inCompressed f \<Longrightarrow> \<not> uc"
  shows "snd (receive (concat (map (chunkFrames zc uc level ab) ixs)) r)
           = replicate (2 * length ixs) Returned \<and>
         receivedChunks (fst (receive (concat (map (chunkFrames zc uc level ab) ixs)) r))
           = receivedChunks r @ map (\<lambda>i. keptAs (inCompressed f) (chunkAt ab i)) ixs \<and>
         incomingFile (fst (receive (concat (map (chunkFrames zc uc level ab) ixs)) r)) = Some f \<and>
         fileList (fst (receive (concat (map (chunkFrames zc uc level ab) ixs)) r)) = fileList r \<and>
         zstdCodec (fst (receive (concat (map (chunkFrames zc uc level ab) ixs)) r)) = zstdCodec r"
  using assms
proof (induction ixs arbitrary: r)
  case Nil
  then show ?case by simp
next
  case (Cons i ixs)
  let ?w = "wireOf zc uc level (chunkAt ab i)"
  let ?h = "\<lparr>index = i, originalSize = length (chunkAt ab i), compressedSize = length ?w\<rparr>"
  let ?r1 = "r\<lparr>receivedChunks := receivedChunks r @ [keptAs (inCompressed f) (chunkAt ab i)],
        receivedSize :=
          add (receivedSize r) (byteLengthOrLength (keptAs (inCompressed f) (chunkAt ab i))),
        benchmark := (benchmark r)\<lparr>benchCompressedSize := benchCompressedSize (benchmark r) + length ?w,
                                    chunksReceived := chunksReceived (benchmark r) + 1\<rparr>\<rparr>"
  have d: "inCompressed f \<Longrightarrow> decompressData (zstdCodec r) ?w = Inr (chunkAt ab i)"
    using Cons.prems(3) by (auto simp: decompressData_def wireOf_def inverts_def)
  have e: "\<not> inCompressed f \<Longrightarrow> ?w = chunkAt ab i"
    using Cons.prems(4) by (simp add: wireOf_def split: option.splits)
  have pair: "receive (chunkFrames zc uc level ab i) r = (?r1, [Returned, Returned])"
    unfolding chunkFrames_def
    by (rule receive_pair [OF Cons.prems(1) Cons.prems(2) d e])
  have ih: "snd (receive (concat (map (chunkFrames zc uc level ab) ixs)) ?r1)
           = replicate (2 * length ixs) Returned \<and>
         receivedChunks (fst (receive (concat (map (chunkFrames zc uc level ab) ixs)) ?r1))
           = receivedChunks ?r1 @ map (\<lambda>i. keptAs (inCompressed f) (chunkAt ab i)) ixs \<and>
         incomingFile (fst (receive (concat (map (chunkFrames zc uc level ab) ixs)) ?r1)) = Some f \<and>
         fileList (fst (receive (concat (map (chunkFrames zc uc level ab) ixs)) ?r1)) = fileList ?r1 \<and>
         zstdCodec (fst (receive (concat (map (chunkFrames zc uc level ab) ixs)) ?r1)) = zstdCodec ?r1"
    using Cons.prems by (intro Cons.IH) simp_all
  have split: "receive (concat (map (chunkFrames zc uc level ab) (i # ixs))) r =
      (fst (receive (concat (map (chunkFrames zc uc level ab) ixs)) ?r1),
       [Returned, Returned] @ snd (receive (concat (map (chunkFrames zc uc level ab) ixs)) ?r1))"
    by (simp add: receive_append pair split: prod.splits)
  show ?case unfolding split using ih by simp
qed

lemma receive_transfer:
  assumes "compressed md \<Longrightarrow> \<exists>cs cr. zc = Some cs \<and> zstdCodec r = Some cr \<and> inverts cr cs level"
    and "\<forall>i\<in>set ixs. chunkAt ab i \<noteq> []"
  shows "snd (receive (Text (MetadataMsg md) # concat (map (chunkFrames zc (compressed md) level ab) ixs) @ [Text CompleteMsg]) r)
           = replicate (2 * length ixs + 2) Returned \<and>
         fileList (fst (receive (Text (MetadataMsg md) # concat (map (chunkFrames zc (compressed md) level ab) ixs) @ [Text CompleteMsg]) r))
           = fileList r @ [\<lparr>shownName = name md, shownSize = size' md,
            blobType = (if mimeType md = [] then ''application/octet-stream'' else mimeType md),
            blobData = concat (map (chunkAt ab) ixs)\<rparr>] \<and>
         incomingFile (fst (receive (Text (MetadataMsg md) # concat (map (chunkFrames zc (compressed md) level ab) ixs) @ [Text CompleteMsg]) r)) = None"
proof -
  let ?f = "\<lparr>inName = name md, inSize = size' md, inMimeType = mimeType md,
               inCompressed = compressed md, inTotalChunks = totalChunks md,
               currentChunk = None\<rparr>"
  let ?r0 = "handleFileMetadata md r"
  let ?cs = "concat (map (chunkFrames zc (compressed md) level ab) ixs)"
  let ?r1 = "fst (receive ?cs ?r0)"
  have a: "incomingFile ?r0 = Some ?f" "receivedChunks ?r0 = []" "fileList ?r0 = fileList r"
    "zstdCodec ?r0 = zstdCodec r"
    by (simp_all add: handleFileMetadata_def)
  have c: "snd (receive ?cs ?r0) = replicate (2 * length ixs) Returned \<and>
         receivedChunks ?r1 =
           receivedChunks ?r0 @ map (\<lambda>i. keptAs (inCompressed ?f) (chunkAt ab i)) ixs \<and>
         incomingFile ?r1 = Some ?f \<and> fileList ?r1 = fileList ?r0 \<and> zstdCodec ?r1 = zstdCodec ?r0"
    using assms(1) a by (intro receive_chunks) auto
  have rc: "receivedChunks ?r1 = map (\<lambda>i. keptAs (compressed md) (chunkAt ab i)) ixs"
    using c a(2) by simp
  have ne: "ArrayBuffer [] \<notin> set (receivedChunks ?r1)"
    using assms(2) unfolding rc by (auto simp: keptAs_def split: if_splits)
  have fin: "handleTransferComplete ?r1 =
    (?r1\<lparr>fileList := fileList ?r1 @
          [\<lparr>shownName = inName ?f, shownSize = inSize ?f,
            blobType = (if inMimeType ?f = [] then ''application/octet-stream'' else inMimeType ?f),
            blobData = concat (map bytesOf (receivedChunks ?r1))\<rparr>],
        incomingFile := None, receivedChunks := [], receivedSize := Num 0\<rparr>, Returned)"
    using c ne by (intro handleTransferComplete_active) simp_all
  have whole: "receive (Text (MetadataMsg md) # ?cs @ [Text CompleteMsg]) r =
     (fst (handleTransferComplete ?r1), Returned # snd (receive ?cs ?r0) @ [snd (handleTransferComplete ?r1)])"
    by (simp add: receive_append split: prod.splits)
  show ?thesis unfolding whole using c a
    by (simp add: fin bytesOf_keptAs comp_def replicate_append_same)
qed

lemma header_keeps_active:
  "incomingFile r \<noteq> None \<Longrightarrow>
   incomingFile (fst (handleDataChannelMessage (Text (ChunkMsg h)) r)) \<noteq> None"
  by (auto split: option.splits)

lemma binary_keeps_active:
  "incomingFile r \<noteq> None \<Longrightarrow>
   incomingFile (fst (handleDataChannelMessage (Binary d) r)) \<noteq> None"
  by (auto simp: handleChunkData_def Let_def split: option.splits sum.splits)

lemma receive_keeps_active:
  assumes "incomingFile r \<noteq> None"
  shows "incomingFile (fst (receive (concat (map (chunkFrames zc uc level ab) ixs)) r)) \<noteq> None"
  using assms
proof (induction ixs arbitrary: r)
  case Nil
  then show ?case by simp
next
  case (Cons i ixs)
  let ?h = "\<lparr>index = i, originalSize = length (chunkAt ab i),
             compressedSize = length (wireOf zc uc level (chunkAt ab i))\<rparr>"
  let ?r1 = "fst (handleDataChannelMessage (Text (ChunkMsg ?h)) r)"
  let ?r2 = "fst (handleDataChannelMessage (Binary (wireOf zc uc level (chunkAt ab i))) ?r1)"
  have "incomingFile ?r1 \<noteq> None" using Cons.prems by (rule header_keeps_active)
  then have "incomingFile ?r2 \<noteq> None" by (rule binary_keeps_active)
  then have "incomingFile (fst (receive (concat (map (chunkFrames zc uc level ab) ixs)) ?r2)) \<noteq> None"
    by (rule Cons.IH)
  moreover have "fst (receive (concat (map (chunkFrames zc uc level ab) (i # ixs))) r) =
      fst (receive (concat (map (chunkFrames zc uc level ab) ixs)) ?r2)"
    by (simp add: chunkFrames_def split: prod.splits)
  ultimately show ?case by simp
qed

section \<open>Runs that differ in what the receiver does not read\<close>

text \<open>
  Each handler commutes with blanking the fields in question, in the frame and in the
  state; so do whole runs.
\<close>

lemma blankState_idem: "blankState (blankState s) = blankState s"
  by (cases "incomingFile s") (simp_all add: blankState_def option.map_comp comp_def)

lemma handle_blank:
  "blankState (fst (handleDataChannelMessage fr s)) =
     blankState (fst (handleDataChannelMessage (blank fr) (blankState s))) \<and>
   snd (handleDataChannelMessage fr s) = snd (handleDataChannelMessage (blank fr) (blankState s))"
proof (cases fr)
  case (Binary d)
  show ?thesis
  proof (cases "incomingFile s")
    case None
    then show ?thesis using Binary by (simp add: handleChunkData_def blankState_def)
  next
    case (Some f)
    show ?thesis
    proof (cases "currentChunk f")
      case None
      with Some Binary show ?thesis by (simp add: handleChunkData_def blankState_def)
    next
      case (Some h)
      with \<open>incomingFile s = Some f\<close> Binary show ?thesis
        by (cases "decompressData (zstdCodec s) d")
           (simp_all add: handleChunkData_def blankState_def Let_def)
    qed
  qed
next
  case (Text m)
  show ?thesis
  proof (cases m)
    case (MetadataMsg md)
    with Text show ?thesis by (simp add: handleFileMetadata_def blankState_def)
  next
    case (ChunkMsg h)
    with Text show ?thesis by (cases "incomingFile s") (simp_all add: blankState_def)
  next
    case CompleteMsg
    with Text show ?thesis
      by (cases "incomingFile s")
         (simp_all add: handleTransferComplete_def blankState_def Let_def option.map_comp
            comp_def split: option.splits)
  next
    case (OtherMsg t)
    with Text show ?thesis by (simp add: blankState_idem)
  qed
qed

lemma handle_alike:
  assumes "blank a = blank b" "blankState s1 = blankState s2"
  shows "blankState (fst (handleDataChannelMessage a s1)) =
           blankState (fst (handleDataChannelMessage b s2)) \<and>
         snd (handleDataChannelMessage a s1) = snd (handleDataChannelMessage b s2)"
  using handle_blank [of a s1] handle_blank [of b s2] assms by simp

lemma receive_alike:
  assumes "map blank frs1 = map blank frs2" "blankState s1 = blankState s2"
  shows "blankState (fst (receive frs1 s1)) = blankState (fst (receive frs2 s2)) \<and>
         snd (receive frs1 s1) = snd (receive frs2 s2)"
  using assms
proof (induction frs1 arbitrary: frs2 s1 s2)
  case Nil
  then show ?case by simp
next
  case (Cons a frs1)
  then obtain b frs2' where frs2: "frs2 = b # frs2'" and ab: "blank a = blank b"
    and rest: "map blank frs1 = map blank frs2'"
    by (cases frs2) auto
  let ?a = "handleDataChannelMessage a s1"
  let ?b = "handleDataChannelMessage b s2"
  have st: "blankState (fst ?a) = blankState (fst ?b)" and ou: "snd ?a = snd ?b"
    using handle_alike [OF ab Cons.prems(2)] by simp_all
  have l: "receive (a # frs1) s1 = (fst (receive frs1 (fst ?a)), snd ?a # snd (receive frs1 (fst ?a)))"
    by (simp split: prod.splits)
  have r: "receive (b # frs2') s2 = (fst (receive frs2' (fst ?b)), snd ?b # snd (receive frs2' (fst ?b)))"
    by (simp split: prod.splits)
  show ?case unfolding frs2 l r using Cons.IH [OF rest st] ou by simp
qed

lemma fileList_blankState: "fileList (blankState s) = fileList s"
  by (simp add: blankState_def)

lemma bareState_idem: "bareState (bareState s) = bareState s"
  by (cases "incomingFile s") (simp_all add: bareState_def option.map_comp comp_def)

lemma handle_bare:
  "bareState (fst (handleDataChannelMessage fr s)) =
     bareState (fst (handleDataChannelMessage (bare fr) (bareState s))) \<and>
   snd (handleDataChannelMessage fr s) = snd (handleDataChannelMessage (bare fr) (bareState s))"
proof (cases fr)
  case (Binary d)
  show ?thesis
  proof (cases "incomingFile s")
    case None
    then show ?thesis using Binary by (simp add: handleChunkData_def bareState_def)
  next
    case (Some f)
    show ?thesis
    proof (cases "currentChunk f")
      case None
      with Some Binary show ?thesis
        by (simp add: handleChunkData_def bareState_def option.map_comp comp_def)
    next
      case (Some h)
      with \<open>incomingFile s = Some f\<close> Binary show ?thesis
        by (cases "decompressData (zstdCodec s) d")
           (simp_all add: handleChunkData_def bareState_def Let_def)
    qed
  qed
next
  case (Text m)
  show ?thesis
  proof (cases m)
    case (MetadataMsg md)
    with Text show ?thesis by (simp add: handleFileMetadata_def bareState_def)
  next
    case (ChunkMsg h)
    with Text show ?thesis by (cases "incomingFile s") (simp_all add: bareState_def)
  next
    case CompleteMsg
    with Text show ?thesis
      by (cases "incomingFile s")
         (simp_all add: handleTransferComplete_def bareState_def Let_def option.map_comp
            comp_def split: option.splits)
  next
    case (OtherMsg t)
    with Text show ?thesis by (simp add: bareState_idem)
  qed
qed

lemma handle_bare_alike:
  assumes "bare a = bare b" "bareState s1 = bareState s2"
  shows "bareState (fst (handleDataChannelMessage a s1)) =
           bareState (fst (handleDataChannelMessage b s2)) \<and>
         snd (handleDataChannelMessage a s1) = snd (handleDataChannelMessage b s2)"
  using handle_bare [of a s1] handle_bare [of b s2] assms by simp

lemma receive_bare_alike:
  assumes "map bare frs1 = map bare frs2" "bareState s1 = bareState s2"
  shows "bareState (fst (receive frs1 s1)) = bareState (fst (receive frs2 s2)) \<and>
         snd (receive frs1 s1) = snd (receive frs2 s2)"
  using assms
proof (induction frs1 arbitrary: frs2 s1 s2)
  case Nil
  then show ?case by simp
next
  case (Cons a frs1)
  then obtain b frs2' where frs2: "frs2 = b # frs2'" and ab: "bare a = bare b"
    and rest: "map bare frs1 = map bare frs2'"
    by (cases frs2) auto
  let ?a = "handleDataChannelMessage a s1"
  let ?b = "handleDataChannelMessage b s2"
  have st: "bareState (fst ?a) = bareState (fst ?b)" and ou: "snd ?a = snd ?b"
    using handle_bare_alike [OF ab Cons.prems(2)] by simp_all
  have l: "receive (a # frs1) s1 = (fst (receive frs1 (fst ?a)), snd ?a # snd (receive frs1 (fst ?a)))"
    by (simp split: prod.splits)
  have r: "receive (b # frs2') s2 = (fst (receive frs2' (fst ?b)), snd ?b # snd (receive frs2' (fst ?b)))"
    by (simp split: prod.splits)
  show ?case unfolding frs2 l r using Cons.IH [OF rest st] ou by simp
qed

lemma blobData_bareState: "map blobData (fileList (bareState s)) = map blobData (fileList s)"
  by (simp add: bareState_def comp_def)

section \<open>The example states\<close>

text \<open>
  The example states meet the conditions of the theorems below, and \<open>sendFile\<close> returns
  on them.
\<close>

lemmas demo_defs = demoSender_def demoFile_def demoCodec_def demoTransport_def initial_def
  demoReceiver_def drainingTransport_def emptyFile_def emptySender_def plainSender_def bigFile_def
  demoMetadata_def demoActive_def nearlyFull_def slowTransport_def chunkFile_def busySender_def
  steadyTransport_def afterFirstSend_def

lemmas run_defs = sendFile_def sendChunk_def slice_def send_def drained_def frameBytes_def
  compressData_def chunkCount_div CHUNK_SIZE_def BUFFER_THRESHOLD_def Let_def
  waitForBufferDrain_def

lemma demo_pre:
  "fileInput demoSender = Some demoFile"
  "dataChannel demoSender = Some \<lparr>readyState = Open, bufferedAmount = 0, outbox = []\<rparr>"
  by (simp_all add: demo_defs)

lemma plain_pre:
  "fileInput plainSender = Some bigFile"
  "dataChannel plainSender = Some \<lparr>readyState = Open, bufferedAmount = 0, outbox = []\<rparr>"
  "readyState \<lparr>readyState = Open, bufferedAmount = 0, outbox = []\<rparr> = Open"
  "\<not> compressionToggle plainSender"
  "length (content bigFile) = 200000"
  by (simp_all add: demo_defs)

lemma empty_pre:
  "fileInput emptySender = Some emptyFile"
  "content emptyFile = []"
  "dataChannel emptySender = Some \<lparr>readyState = Open, bufferedAmount = 0, outbox = []\<rparr>"
  by (simp_all add: demo_defs)

lemma nearly_pre:
  "fileInput nearlyFull = Some demoFile"
  "dataChannel nearlyFull = Some \<lparr>readyState = Open, bufferedAmount = 1048500, outbox = []\<rparr>"
  "readyState \<lparr>readyState = Open, bufferedAmount = 1048500, outbox = []\<rparr> = Open"
  by (simp_all add: demo_defs)

lemma demo_returns: "sendFile demoTransport demoSender = (fst (sendFile demoTransport demoSender), Returned)"
proof -
  have "snd (sendFile demoTransport demoSender) = Returned"
    by (simp add: demo_defs run_defs)
  then show ?thesis by (metis prod.collapse)
qed

lemma plain_returns:
  "sendFile demoTransport plainSender = (fst (sendFile demoTransport plainSender), Returned)"
proof -
  have "snd (sendFile demoTransport plainSender) = Returned"
    by (simp add: demo_defs run_defs)
  then show ?thesis by (metis prod.collapse)
qed

section \<open>Properties of the transfer\<close>

text \<open>
  C1. Round trip. A page with a file selected and an open channel sends the file; the
  peer handles the frames the run has added to the channel, in order. When compression
  is on, both pages have a codec and the receiver's \<open>decompress\<close> undoes the sender's
  \<open>compress\<close>. Then \<open>sendFile\<close> returns whenever the transport has a task for every
  wait that drains what is queued, and whenever \<open>sendFile\<close> returns, every handler of the
  peer returns and the peer's list of received files grows by exactly one entry, whose
  blob is the file's content: for the empty file, for a file below one chunk and for
  any longer one, with compression and without.
\<close>

theorem roundtrip:
  assumes "fileInput s = Some f" "dataChannel s = Some dc" "readyState dc = Open"
    and "compressionToggle s \<longrightarrow>
           (\<exists>cs cr. zstdCodec s = Some cs \<and> zstdCodec r = Some cr \<and> inverts cr cs (levelInput s))"
  shows "(chunkCount (length (content f)) \<le> length (waitDrains env) \<and>
          (\<forall>d\<in>set (waitDrains env).
             bufferedAmount dc +
               sum_list (map (frameBytes (jsonBytes env)) (transferFrames s f)) \<le> d)
            \<longrightarrow> snd (sendFile env s) = Returned) \<and>
         (snd (sendFile env s) = Returned \<longrightarrow>
            snd (receive (emitted s (fst (sendFile env s))) r) =
              replicate (2 * chunkCount (length (content f)) + 2) Returned \<and>
            fileList (fst (receive (emitted s (fst (sendFile env s))) r)) =
              fileList r @
              [\<lparr>shownName = fileName f, shownSize = length (content f),
                blobType = (if fileType f = [] then ''application/octet-stream'' else fileType f),
                blobData = content f\<rparr>] \<and>
            incomingFile (fst (receive (emitted s (fst (sendFile env s))) r)) = None)"
proof -
  let ?n = "chunkCount (length (content f))"
  have c0: "compressionToggle s \<longrightarrow> zstdCodec s \<noteq> None" using assms(4) by auto
  have ret: "chunkCount (length (content f)) \<le> length (waitDrains env) \<and>
          (\<forall>d\<in>set (waitDrains env).
             bufferedAmount dc +
               sum_list (map (frameBytes (jsonBytes env)) (transferFrames s f)) \<le> d)
            \<longrightarrow> snd (sendFile env s) = Returned"
    using sendFile_returns [OF assms(1-3) c0] by blast
  have rt: "snd (sendFile env s) = Returned \<longrightarrow>
            snd (receive (emitted s (fst (sendFile env s))) r) =
              replicate (2 * chunkCount (length (content f)) + 2) Returned \<and>
            fileList (fst (receive (emitted s (fst (sendFile env s))) r)) =
              fileList r @
              [\<lparr>shownName = fileName f, shownSize = length (content f),
                blobType = (if fileType f = [] then ''application/octet-stream'' else fileType f),
                blobData = content f\<rparr>] \<and>
            incomingFile (fst (receive (emitted s (fst (sendFile env s))) r)) = None"
  proof
    assume "snd (sendFile env s) = Returned"
    then have sf: "sendFile env s = (fst (sendFile env s), Returned)"
      by (metis prod.collapse)
    have e: "emitted s (fst (sendFile env s)) = transferFrames s f"
      by (rule emitted_Returned [OF assms(1-3) sf])
    have c: "compressed (metadataOf s f) \<Longrightarrow>
        \<exists>cs cr. zstdCodec s = Some cs \<and> zstdCodec r = Some cr \<and> inverts cr cs (levelInput s)"
      using assms(4) by (simp add: metadataOf_def)
    have t: "transferFrames s f = Text (MetadataMsg (metadataOf s f)) #
        concat (map (chunkFrames (zstdCodec s) (compressed (metadataOf s f)) (levelInput s) (content f)) [0..<?n]) @
        [Text CompleteMsg]"
      by (simp add: transferFrames_def metadataOf_def)
    have m: "name (metadataOf s f) = fileName f" "size' (metadataOf s f) = length (content f)"
      "mimeType (metadataOf s f) = fileType f"
      by (simp_all add: metadataOf_def)
    have "snd (receive (transferFrames s f) r) = replicate (2 * length [0..<?n] + 2) Returned \<and>
          fileList (fst (receive (transferFrames s f) r)) =
            fileList r @
            [\<lparr>shownName = name (metadataOf s f), shownSize = size' (metadataOf s f),
              blobType = (if mimeType (metadataOf s f) = [] then ''application/octet-stream''
                          else mimeType (metadataOf s f)),
              blobData = concat (map (chunkAt (content f)) [0..<?n])\<rparr>] \<and>
          incomingFile (fst (receive (transferFrames s f) r)) = None"
      unfolding t
    proof (rule receive_transfer)
      show "\<forall>i\<in>set [0..<?n]. chunkAt (content f) i \<noteq> []"
        by (simp add: chunkAt_nonempty)
    qed (rule c)
    then show "snd (receive (emitted s (fst (sendFile env s))) r) =
              replicate (2 * chunkCount (length (content f)) + 2) Returned \<and>
            fileList (fst (receive (emitted s (fst (sendFile env s))) r)) =
              fileList r @
              [\<lparr>shownName = fileName f, shownSize = length (content f),
                blobType = (if fileType f = [] then ''application/octet-stream'' else fileType f),
                blobData = content f\<rparr>] \<and>
            incomingFile (fst (receive (emitted s (fst (sendFile env s))) r)) = None"
      by (simp only: e m concat_chunks length_upt diff_zero)
  qed
  from ret rt show ?thesis by blast
qed

text \<open>The two-byte file \<open>a.txt\<close>, compressed by the example codec.\<close>

theorem roundtrip_witness:
  "snd (sendFile drainingTransport demoSender) = Returned \<and>
   fileList (fst (receive (emitted demoSender (fst (sendFile drainingTransport demoSender)))
      demoReceiver)) =
     [\<lparr>shownName = ''a.txt'', shownSize = 2, blobType = ''text/plain'', blobData = [104, 105]\<rparr>]"
proof -
  have h1: "fileInput demoSender = Some demoFile" by (simp add: demo_defs)
  have h2: "dataChannel demoSender = Some \<lparr>readyState = Open, bufferedAmount = 0, outbox = []\<rparr>"
    by (simp add: demo_defs)
  have h3: "readyState \<lparr>readyState = Open, bufferedAmount = 0, outbox = []\<rparr> = Open" by simp
  have h4: "compressionToggle demoSender \<longrightarrow>
      (\<exists>cs cr. zstdCodec demoSender = Some cs \<and> zstdCodec demoReceiver = Some cr \<and>
         inverts cr cs (levelInput demoSender))"
    by (simp add: demo_defs inverts_def)
  have enough: "chunkCount (length (content demoFile)) \<le> length (waitDrains drainingTransport) \<and>
      (\<forall>d\<in>set (waitDrains drainingTransport).
         bufferedAmount \<lparr>readyState = Open, bufferedAmount = 0, outbox = []\<rparr> +
           sum_list (map (frameBytes (jsonBytes drainingTransport))
             (transferFrames demoSender demoFile)) \<le> d)"
    by (simp add: demo_defs run_defs transferFrames_def chunkFrames_def wireOf_def chunkAt_def)
  show ?thesis
    using roundtrip [OF h1 h2 h3 h4, of drainingTransport] enough
    by (simp add: demo_defs)
qed

text \<open>
  C2. Chunk count. In a run of \<open>sendFile\<close> that returns, the metadata is the first frame
  and its \<open>totalChunks\<close> is the ceiling of the length over \<open>CHUNK_SIZE\<close>; that many headers
  and that many binary frames follow; the \<open>i\<close>-th header gives the length of the slice
  from \<open>i * CHUNK_SIZE\<close>, at most \<open>CHUNK_SIZE\<close> long, and the binary frames are these
  slices as \<open>wireOf\<close> puts them on the wire: unchanged with compression off, compressed
  by the loaded codec with compression on. For a file that
  is not empty the last slice has \<open>L mod CHUNK_SIZE\<close> bytes, or \<open>CHUNK_SIZE\<close> when that is
  zero. A file of 200000 bytes sent without compression gives four chunks of 65536,
  65536, 65536 and 3392 bytes, and the peer assembles 200000 bytes.
\<close>

theorem chunk_count_and_sizes:
  assumes "fileInput s = Some f" "dataChannel s = Some dc" "readyState dc = Open"
    and "sendFile env s = (s', Returned)"
  shows "hd (emitted s s') = Text (MetadataMsg (metadataOf s f)) \<and>
         int (totalChunks (metadataOf s f)) = \<lceil>real (length (content f)) / real CHUNK_SIZE\<rceil> \<and>
         length (headers (emitted s s')) = totalChunks (metadataOf s f) \<and>
         length (binaries (emitted s s')) = totalChunks (metadataOf s f) \<and>
         map originalSize (headers (emitted s s')) =
           map (\<lambda>i. length (take CHUNK_SIZE (drop (i * CHUNK_SIZE) (content f))))
             [0..<totalChunks (metadataOf s f)] \<and>
         binaries (emitted s s') =
           map (\<lambda>i. wireOf (zstdCodec s) (compressionToggle s) (levelInput s)
                      (take CHUNK_SIZE (drop (i * CHUNK_SIZE) (content f))))
             [0..<totalChunks (metadataOf s f)] \<and>
         (0 < length (content f) \<longrightarrow>
            originalSize (last (headers (emitted s s'))) =
              (if length (content f) mod CHUNK_SIZE = 0 then CHUNK_SIZE
               else length (content f) mod CHUNK_SIZE)) \<and>
         (\<not> compressionToggle s \<and> length (content f) = 200000 \<longrightarrow>
            totalChunks (metadataOf s f) = 4 \<and>
            map length (binaries (emitted s s')) = [65536, 65536, 65536, 3392] \<and>
            map (\<lambda>e. length (blobData e)) (fileList (fst (receive (emitted s s') r))) =
              map (\<lambda>e. length (blobData e)) (fileList r) @ [200000])"
proof -
  let ?n = "chunkCount (length (content f))"
  have e: "emitted s s' = transferFrames s f" by (rule emitted_Returned [OF assms])
  have n: "totalChunks (metadataOf s f) = ?n" by (simp add: metadataOf_def)
  have p1: "hd (emitted s s') = Text (MetadataMsg (metadataOf s f))"
    by (simp add: e transferFrames_def)
  have p2: "int (totalChunks (metadataOf s f)) = \<lceil>real (length (content f)) / real CHUNK_SIZE\<rceil>"
    by (simp only: n chunkCount_int)
  have p3: "length (headers (emitted s s')) = totalChunks (metadataOf s f)"
    by (simp add: e n headers_transfer)
  have p4: "length (binaries (emitted s s')) = totalChunks (metadataOf s f)"
    by (simp add: e n binaries_transfer)
  have p5: "map originalSize (headers (emitted s s')) =
           map (\<lambda>i. length (take CHUNK_SIZE (drop (i * CHUNK_SIZE) (content f))))
             [0..<totalChunks (metadataOf s f)]"
    by (simp add: e n headers_transfer chunkAt_def comp_def)
  have p6: "binaries (emitted s s') =
           map (\<lambda>i. wireOf (zstdCodec s) (compressionToggle s) (levelInput s)
                      (take CHUNK_SIZE (drop (i * CHUNK_SIZE) (content f))))
             [0..<totalChunks (metadataOf s f)]"
    by (simp add: e n binaries_transfer chunkAt_def)
  have p8: "0 < length (content f) \<longrightarrow>
            originalSize (last (headers (emitted s s'))) =
              (if length (content f) mod CHUNK_SIZE = 0 then CHUNK_SIZE
               else length (content f) mod CHUNK_SIZE)"
  proof
    assume pos: "0 < length (content f)"
    then have "0 < ?n" by (rule chunkCount_pos)
    then have ne: "[0..<?n] \<noteq> []" by simp
    have "last [0..<?n] = ?n - 1" using \<open>0 < ?n\<close> by (simp add: last_upt)
    then have "originalSize (last (headers (emitted s s'))) = length (chunkAt (content f) (?n - 1))"
      using ne by (simp add: e headers_transfer last_map)
    then show "originalSize (last (headers (emitted s s'))) =
              (if length (content f) mod CHUNK_SIZE = 0 then CHUNK_SIZE
               else length (content f) mod CHUNK_SIZE)"
      by (simp only: last_originalSize [OF pos])
  qed
  have p9: "\<not> compressionToggle s \<and> length (content f) = 200000 \<longrightarrow>
            totalChunks (metadataOf s f) = 4 \<and>
            map length (binaries (emitted s s')) = [65536, 65536, 65536, 3392] \<and>
            map (\<lambda>e. length (blobData e)) (fileList (fst (receive (emitted s s') r))) =
              map (\<lambda>e. length (blobData e)) (fileList r) @ [200000]"
  proof
    assume a: "\<not> compressionToggle s \<and> length (content f) = 200000"
    have four': "chunkCount 200000 = 4" by (simp add: chunkCount_div CHUNK_SIZE_def)
    with a have four: "?n = 4" by simp
    have up: "[0..<4] = [0, 1, 2, Suc 2]" by (simp add: upt_rec)
    have sizes: "map length (binaries (emitted s s')) = [65536, 65536, 65536, 3392]"
      using a by (simp add: e binaries_transfer four' wireOf_plain length_chunkAt CHUNK_SIZE_def up comp_def)
    have c: "compressed (metadataOf s f) \<Longrightarrow>
        \<exists>cs cr. zstdCodec s = Some cs \<and> zstdCodec r = Some cr \<and> inverts cr cs (levelInput s)"
      using a by (simp add: metadataOf_def)
    have t: "transferFrames s f = Text (MetadataMsg (metadataOf s f)) #
        concat (map (chunkFrames (zstdCodec s) (compressed (metadataOf s f)) (levelInput s) (content f)) [0..<?n]) @
        [Text CompleteMsg]"
      by (simp add: transferFrames_def metadataOf_def)
    have nonempty: "\<forall>i\<in>set [0..<?n]. chunkAt (content f) i \<noteq> []"
      by (simp add: chunkAt_nonempty)
    have "fileList (fst (receive (emitted s s') r)) = fileList r @
        [\<lparr>shownName = name (metadataOf s f), shownSize = size' (metadataOf s f),
            blobType = (if mimeType (metadataOf s f) = [] then ''application/octet-stream'' else mimeType (metadataOf s f)),
            blobData = concat (map (chunkAt (content f)) [0..<?n])\<rparr>]"
      unfolding e t using receive_transfer [OF c nonempty] by blast
    then have "fileList (fst (receive (emitted s s') r)) = fileList r @
        [\<lparr>shownName = name (metadataOf s f), shownSize = size' (metadataOf s f),
            blobType = (if mimeType (metadataOf s f) = [] then ''application/octet-stream'' else mimeType (metadataOf s f)),
            blobData = content f\<rparr>]"
      by (simp only: concat_chunks)
    then have "map (\<lambda>e. length (blobData e)) (fileList (fst (receive (emitted s s') r))) =
              map (\<lambda>e. length (blobData e)) (fileList r) @ [200000]"
      using a by simp
    with four sizes n show "totalChunks (metadataOf s f) = 4 \<and>
            map length (binaries (emitted s s')) = [65536, 65536, 65536, 3392] \<and>
            map (\<lambda>e. length (blobData e)) (fileList (fst (receive (emitted s s') r))) =
              map (\<lambda>e. length (blobData e)) (fileList r) @ [200000]"
      by simp
  qed
  from p1 p2 p3 p4 p5 p6 p8 p9 show ?thesis by blast
qed

text \<open>A file of 200000 zero bytes, sent without compression.\<close>

theorem chunk_count_and_sizes_witness:
  "totalChunks (metadataOf plainSender bigFile) = 4 \<and>
   map length (binaries (emitted plainSender (fst (sendFile demoTransport plainSender)))) =
     [65536, 65536, 65536, 3392] \<and>
   originalSize (last (headers (emitted plainSender (fst (sendFile demoTransport plainSender)))))
     = 3392 \<and>
   map (\<lambda>e. length (blobData e))
     (fileList (fst (receive (emitted plainSender (fst (sendFile demoTransport plainSender)))
        initial))) = [200000]"
proof -
  note T = chunk_count_and_sizes [OF plain_pre(1-3) plain_returns, of initial]
  have m: "(if length (content bigFile) mod CHUNK_SIZE = 0 then CHUNK_SIZE
            else length (content bigFile) mod CHUNK_SIZE) = 3392"
    by (simp add: plain_pre(5) CHUNK_SIZE_def)
  have fl: "fileList initial = []" by (simp add: initial_def)
  from T have "0 < length (content bigFile) \<longrightarrow>
      originalSize (last (headers (emitted plainSender (fst (sendFile demoTransport plainSender)))))
        = (if length (content bigFile) mod CHUNK_SIZE = 0 then CHUNK_SIZE
            else length (content bigFile) mod CHUNK_SIZE)"
    by blast
  then have a: "originalSize (last (headers (emitted plainSender
      (fst (sendFile demoTransport plainSender))))) = 3392"
    by (simp only: m) (simp add: plain_pre(5))
  from T have "\<not> compressionToggle plainSender \<and> length (content bigFile) = 200000 \<longrightarrow>
     totalChunks (metadataOf plainSender bigFile) = 4 \<and>
     map length (binaries (emitted plainSender (fst (sendFile demoTransport plainSender)))) =
       [65536, 65536, 65536, 3392] \<and>
     map (\<lambda>e. length (blobData e))
       (fileList (fst (receive (emitted plainSender (fst (sendFile demoTransport plainSender)))
          initial))) = map (\<lambda>e. length (blobData e)) (fileList initial) @ [200000]"
    by blast
  with plain_pre(4,5) a show ?thesis by (simp add: fl)
qed

text \<open>
  C3. Ordering. In every run of \<open>sendFile\<close> on a selected file and an open channel, the
  \<open>index\<close> fields of the chunk headers sent, in the order sent, count up from zero by
  one without a gap; there are at most \<open>totalChunks\<close> of them, and in a run that returns
  they are exactly \<open>0, 1, \<dots>, totalChunks - 1\<close>. The peer that handles the frames in the
  order sent holds, right after the header at position \<open>i\<close>, a pending header with index
  \<open>i\<close>.
\<close>

theorem header_indices_in_order:
  assumes "fileInput s = Some f" "dataChannel s = Some dc" "readyState dc = Open"
    and "sendFile env s = (s', out)"
  shows "hd (emitted s s') = Text (MetadataMsg (metadataOf s f)) \<and>
         map index (headers (emitted s s')) = [0..<length (headers (emitted s s'))] \<and>
         length (headers (emitted s s')) \<le> totalChunks (metadataOf s f) \<and>
         (out = Returned \<longrightarrow>
            map index (headers (emitted s s')) = [0..<totalChunks (metadataOf s f)]) \<and>
         (\<forall>i<length (headers (emitted s s')).
            map_option index (pendingHeader (fst (receive (take (2 * i + 2) (emitted s s')) r)))
              = Some i)"
proof -
  let ?n = "chunkCount (length (content f))"
  let ?cf = "chunkFrames (zstdCodec s) (compressionToggle s) (levelInput s) (content f)"
  from sendFile_emitted [OF assms] obtain k where k: "k \<le> ?n" "out = Returned \<longrightarrow> k = ?n"
    and e: "emitted s s' = Text (MetadataMsg (metadataOf s f)) # concat (map ?cf [0..<k]) @
             (if out = Returned then [Text CompleteMsg] else [])"
    by blast
  have n: "totalChunks (metadataOf s f) = ?n" by (simp add: metadataOf_def)
  have len: "length (headers (emitted s s')) = k"
    by (simp only: e headers_frames) simp
  have p1: "hd (emitted s s') = Text (MetadataMsg (metadataOf s f))"
    by (simp add: e)
  have ix: "map index (headers (emitted s s')) = [0..<k]"
    by (simp only: e headers_frames) (simp add: comp_def)
  have p2: "map index (headers (emitted s s')) = [0..<length (headers (emitted s s'))]"
    by (simp only: len ix)
  have p3: "length (headers (emitted s s')) \<le> totalChunks (metadataOf s f)"
    using k(1) by (simp only: len n)
  have p4: "out = Returned \<longrightarrow>
            map index (headers (emitted s s')) = [0..<totalChunks (metadataOf s f)]"
    using k(2) by (simp add: ix n)
  have p5: "\<forall>i<length (headers (emitted s s')).
            map_option index (pendingHeader (fst (receive (take (2 * i + 2) (emitted s s')) r)))
              = Some i"
  proof (intro allI impI)
    fix i assume "i < length (headers (emitted s s'))"
    then have i: "i < k" by (simp only: len)
    let ?h = "\<lparr>index = i, originalSize = length (chunkAt (content f) i),
         compressedSize = length (wireOf (zstdCodec s) (compressionToggle s) (levelInput s)
                                   (chunkAt (content f) i))\<rparr>"
    let ?r0 = "handleFileMetadata (metadataOf s f) r"
    let ?r1 = "fst (receive (concat (map ?cf [0..<i])) ?r0)"
    have "incomingFile ?r0 \<noteq> None" by (simp add: handleFileMetadata_def)
    then have "incomingFile ?r1 \<noteq> None" by (rule receive_keeps_active)
    then obtain g where g: "incomingFile ?r1 = Some g" by auto
    have tk: "take (2 * i + 2) (emitted s s') =
            Text (MetadataMsg (metadataOf s f)) # concat (map ?cf [0..<i]) @ [Text (ChunkMsg ?h)]"
      by (simp only: e take_frames [OF i])
    have "fst (receive (Text (MetadataMsg (metadataOf s f)) # concat (map ?cf [0..<i]) @
                [Text (ChunkMsg ?h)]) r) =
            fst (handleDataChannelMessage (Text (ChunkMsg ?h)) ?r1)"
      by (simp only: fst_receive_Cons fst_receive_append fst_receive_Nil
            handleDataChannelMessage.simps(1) fst_conv)
    then have "fst (receive (take (2 * i + 2) (emitted s s')) r) =
            fst (handleDataChannelMessage (Text (ChunkMsg ?h)) ?r1)"
      by (simp only: tk)
    then show "map_option index (pendingHeader (fst (receive (take (2 * i + 2) (emitted s s')) r)))
              = Some i"
      using g by (simp add: pendingHeader_def)
  qed
  from p1 p2 p3 p4 p5 show ?thesis by blast
qed

text \<open>The two-byte file \<open>a.txt\<close>: one header, with index zero.\<close>

theorem header_indices_in_order_witness:
  "map index (headers (emitted demoSender (fst (sendFile demoTransport demoSender)))) = [0] \<and>
   map_option index (pendingHeader (fst (receive
      (take 2 (emitted demoSender (fst (sendFile demoTransport demoSender)))) initial))) = Some 0"
proof -
  note T = header_indices_in_order [OF demo_pre(1,2) plain_pre(3) demo_returns, of initial]
  have n: "totalChunks (metadataOf demoSender demoFile) = 1"
    by (simp add: metadataOf_def demo_defs chunkCount_div CHUNK_SIZE_def)
  have two: "2 * 0 + 2 = (2::nat)" by simp
  from T have "Returned = Returned \<longrightarrow>
      map index (headers (emitted demoSender (fst (sendFile demoTransport demoSender))))
        = [0..<totalChunks (metadataOf demoSender demoFile)]"
    by blast
  then have a: "map index (headers (emitted demoSender (fst (sendFile demoTransport demoSender))))
      = [0]"
    by (simp add: n)
  then have "length (map index (headers (emitted demoSender
      (fst (sendFile demoTransport demoSender))))) = 1"
    by simp
  then have len: "length (headers (emitted demoSender (fst (sendFile demoTransport demoSender)))) = 1"
    by simp
  from T have "\<forall>i<length (headers (emitted demoSender (fst (sendFile demoTransport demoSender)))).
      map_option index (pendingHeader (fst (receive
        (take (2 * i + 2) (emitted demoSender (fst (sendFile demoTransport demoSender)))) initial)))
      = Some i"
    by blast
  then have "map_option index (pendingHeader (fst (receive
        (take (2 * 0 + 2) (emitted demoSender (fst (sendFile demoTransport demoSender)))) initial)))
      = Some 0"
    unfolding len by blast
  then have b: "map_option index (pendingHeader (fst (receive
        (take 2 (emitted demoSender (fst (sendFile demoTransport demoSender)))) initial)))
      = Some 0"
    by (simp only: two)
  from a b show ?thesis by blast
qed

text \<open>
  C4, as the code has it. A metadata frame is accepted in every state of the receiver,
  also while a transfer is active: the handler returns, nothing is signalled, and the
  transfer state (\<open>incomingFile\<close>, \<open>receivedChunks\<close>, \<open>receivedSize\<close>, the benchmark) is
  built anew from the frame alone. The state of the first transfer is dropped whole;
  none of it enters the new one.
\<close>

theorem second_metadata_replaces_transfer:
  "handleDataChannelMessage (Text (MetadataMsg m)) s =
     (s\<lparr>incomingFile :=
          Some \<lparr>inName = name m, inSize = size' m, inMimeType = mimeType m,
                inCompressed = compressed m, inTotalChunks = totalChunks m,
                currentChunk = None\<rparr>,
        receivedChunks := [], receivedSize := Num 0,
        benchmark := \<lparr>benchOriginalSize = size' m, benchCompressedSize = 0, chunksSent = 0,
                      chunksReceived = 0\<rparr>\<rparr>, Returned)"
  by (simp add: handleFileMetadata_def)

text \<open>A second metadata frame at a receiver that holds one chunk of two bytes.\<close>

theorem second_metadata_replaces_transfer_witness:
  "receivedChunks (fst (handleDataChannelMessage (Text (MetadataMsg demoMetadata)) demoActive)) = [] \<and>
   map_option inName (incomingFile
     (fst (handleDataChannelMessage (Text (MetadataMsg demoMetadata)) demoActive))) = Some ''b.bin''"
  using second_metadata_replaces_transfer [of demoMetadata demoActive]
  by (simp add: demoMetadata_def)

text \<open>
  C4 as stated fails: at a receiver with an active transfer and one accumulated chunk,
  the second metadata frame is handled without any signal (the handler returns and no
  error or warning is logged), the accumulated chunk is gone and the transfer carries
  the name of the second frame.
\<close>

theorem second_metadata_counterexample:
  "incomingFile demoActive \<noteq> None \<and>
   receivedChunks demoActive = [ArrayBuffer [104, 105]] \<and>
   snd (handleDataChannelMessage (Text (MetadataMsg demoMetadata)) demoActive) = Returned \<and>
   diagnostics (fst (handleDataChannelMessage (Text (MetadataMsg demoMetadata)) demoActive)) = [] \<and>
   receivedChunks (fst (handleDataChannelMessage (Text (MetadataMsg demoMetadata)) demoActive)) = [] \<and>
   map_option inName (incomingFile
     (fst (handleDataChannelMessage (Text (MetadataMsg demoMetadata)) demoActive))) = Some ''b.bin''"
  by (simp add: demoActive_def initial_def handleFileMetadata_def demoMetadata_def)

text \<open>
  C5, as the code has it. A completion frame that arrives while a transfer is active,
  none of whose accumulated chunks is an empty \<open>ArrayBuffer\<close> (the payload of an empty
  binary frame of a transfer without compression), makes the handler return: the bytes
  of the accumulated chunks, concatenated in the order of their arrival, are appended
  to the list of received files under the declared name and size, and the transfer
  state is reset. The length of the result is compared with the declared size nowhere,
  so the outcome is the same when they differ. Nothing is said here of a transfer that
  holds an empty \<open>ArrayBuffer\<close>, where \<open>chunk.byteLength || chunk.length\<close> is not a number.
\<close>

theorem completion_delivers_whatever_was_assembled:
  "incomingFile s = Some f \<Longrightarrow> ArrayBuffer [] \<notin> set (receivedChunks s) \<Longrightarrow>
   handleDataChannelMessage (Text CompleteMsg) s =
     (s\<lparr>fileList := fileList s @
          [\<lparr>shownName = inName f, shownSize = inSize f,
            blobType = (if inMimeType f = [] then ''application/octet-stream'' else inMimeType f),
            blobData = concat (map bytesOf (receivedChunks s))\<rparr>],
        incomingFile := None, receivedChunks := [], receivedSize := Num 0\<rparr>, Returned)"
  by (simp add: handleTransferComplete_active)

text \<open>Two bytes assembled for a declared size of five.\<close>

theorem completion_delivers_whatever_was_assembled_witness:
  "fileList (fst (handleDataChannelMessage (Text CompleteMsg) demoActive)) =
     [\<lparr>shownName = ''a.txt'', shownSize = 5, blobType = ''text/plain'', blobData = [104, 105]\<rparr>]"
proof -
  have a: "incomingFile demoActive = Some \<lparr>inName = ''a.txt'', inSize = 5, inMimeType = ''text/plain'',
                     inCompressed = False, inTotalChunks = 1, currentChunk = None\<rparr>"
    by (simp add: demoActive_def)
  have b: "ArrayBuffer [] \<notin> set (receivedChunks demoActive)"
    by (simp add: demoActive_def)
  show ?thesis
    using completion_delivers_whatever_was_assembled [OF a b]
    by (simp add: demoActive_def initial_def)
qed

text \<open>
  C5 as stated fails: with two bytes assembled and five declared, the handler of the
  completion frame returns, no error or warning has been logged, and the two bytes
  are delivered.
\<close>

theorem completion_reports_mismatch_counterexample:
  "map bytesOf (receivedChunks demoActive) = [[104, 105]] \<and>
   map_option inSize (incomingFile demoActive) = Some 5 \<and>
   snd (handleDataChannelMessage (Text CompleteMsg) demoActive) = Returned \<and>
   diagnostics (fst (handleDataChannelMessage (Text CompleteMsg) demoActive)) = [] \<and>
   map blobData (fileList (fst (handleDataChannelMessage (Text CompleteMsg) demoActive))) =
     [[104, 105]]"
  by (simp add: demoActive_def initial_def handleTransferComplete_active)

text \<open>
  C6. Frames out of state. A binary frame that arrives while no header is pending (no
  transfer is active, or the active one waits for a header) leaves the whole state as
  it is; the handler returns. A chunk header that arrives while no transfer is active
  leaves the whole state as it is too; there the assignment of line 401 throws a
  \<open>TypeError\<close>, which ends the handler of that frame only.
\<close>

theorem out_of_state_frame_ignored:
  "(pendingHeader s = None \<longrightarrow> handleDataChannelMessage (Binary data) s = (s, Returned)) \<and>
   (incomingFile s = None \<longrightarrow>
      handleDataChannelMessage (Text (ChunkMsg h)) s = (s, Threw TypeError))"
  by (auto simp: pendingHeader_def handleChunkData_def split: option.splits)

text \<open>A binary frame between two chunks, and a header on the freshly loaded page.\<close>

theorem out_of_state_frame_ignored_witness:
  "pendingHeader demoActive = None \<and>
   handleDataChannelMessage (Binary [1, 2, 3]) demoActive = (demoActive, Returned) \<and>
   incomingFile initial = None \<and>
   handleDataChannelMessage (Text (ChunkMsg \<lparr>index = 0, originalSize = 3, compressedSize = 3\<rparr>))
     initial = (initial, Threw TypeError)"
proof -
  have a: "pendingHeader demoActive = None"
    by (simp add: pendingHeader_def demoActive_def)
  have b: "incomingFile initial = None"
    by (simp add: initial_def)
  show ?thesis
    using a b out_of_state_frame_ignored [of demoActive "[1, 2, 3]"]
      out_of_state_frame_ignored [of initial _ "\<lparr>index = 0, originalSize = 3, compressedSize = 3\<rparr>"]
    by simp
qed

text \<open>
  C7. The empty file. For a file of zero bytes \<open>sendFile\<close> returns, whatever the
  transport does and whether or not a codec is loaded, having sent the metadata with
  \<open>totalChunks = 0\<close> and the completion frame and nothing between them. The peer's two
  handlers return and it delivers a blob of zero bytes.
\<close>

theorem empty_file_transfer:
  assumes "fileInput s = Some f" "content f = []" "dataChannel s = Some dc" "readyState dc = Open"
  shows "snd (sendFile env s) = Returned \<and>
         emitted s (fst (sendFile env s)) =
           [Text (MetadataMsg
              \<lparr>name = fileName f, size' = 0, mimeType = fileType f,
               compressed = compressionToggle s, compressionLevel = levelInput s,
               totalChunks = 0\<rparr>),
            Text CompleteMsg] \<and>
         snd (receive (emitted s (fst (sendFile env s))) r) = [Returned, Returned] \<and>
         fileList (fst (receive (emitted s (fst (sendFile env s))) r)) =
           fileList r @
           [\<lparr>shownName = fileName f, shownSize = 0,
             blobType = (if fileType f = [] then ''application/octet-stream'' else fileType f),
             blobData = []\<rparr>]"
proof -
  have e: "emitted s (fst (sendFile env s)) =
           [Text (MetadataMsg
              \<lparr>name = fileName f, size' = 0, mimeType = fileType f,
               compressed = compressionToggle s, compressionLevel = levelInput s,
               totalChunks = 0\<rparr>),
            Text CompleteMsg]"
    using assms
    by (simp add: sendFile_empty [OF assms] emitted_def sent_def outbox_send drained_def
          metadataOf_def chunkCount_0)
  have r: "receive [Text (MetadataMsg
              \<lparr>name = fileName f, size' = 0, mimeType = fileType f,
               compressed = compressionToggle s, compressionLevel = levelInput s,
               totalChunks = 0\<rparr>), Text CompleteMsg] r =
        (fst (handleTransferComplete (handleFileMetadata \<lparr>name = fileName f, size' = 0, mimeType = fileType f,
               compressed = compressionToggle s, compressionLevel = levelInput s,
               totalChunks = 0\<rparr> r)), [Returned, snd (handleTransferComplete (handleFileMetadata \<lparr>name = fileName f, size' = 0, mimeType = fileType f,
               compressed = compressionToggle s, compressionLevel = levelInput s,
               totalChunks = 0\<rparr> r))])"
    by (simp split: prod.splits)
  show ?thesis
    unfolding e r
    by (simp add: sendFile_empty [OF assms] handleFileMetadata_def handleTransferComplete_def)
qed

text \<open>The empty file \<open>empty.txt\<close>, on a page without codec.\<close>

theorem empty_file_transfer_witness:
  "snd (sendFile demoTransport emptySender) = Returned \<and>
   emitted emptySender (fst (sendFile demoTransport emptySender)) =
     [Text (MetadataMsg \<lparr>name = ''empty.txt'', size' = 0, mimeType = [], compressed = True,
                         compressionLevel = 3, totalChunks = 0\<rparr>),
      Text CompleteMsg] \<and>
   fileList (fst (receive (emitted emptySender (fst (sendFile demoTransport emptySender))) initial)) =
     [\<lparr>shownName = ''empty.txt'', shownSize = 0, blobType = ''application/octet-stream'',
       blobData = []\<rparr>]"
proof -
  have f: "fileName emptyFile = ''empty.txt''" "fileType emptyFile = []"
    "compressionToggle emptySender = True" "levelInput emptySender = 3" "fileList initial = []"
    by (simp_all add: demo_defs)
  note T = empty_file_transfer [OF empty_pre(1-3) plain_pre(3), of demoTransport initial]
  from T [unfolded f, simplified] show ?thesis by blast
qed

text \<open>
  C8. Without compression. The \<open>compressed\<close> flag of the metadata is the state of the
  compression toggle (line 324). In every run of \<open>sendFile\<close> with the toggle off, however
  it ends, every chunk header sent has \<open>compressedSize\<close> equal to \<open>originalSize\<close>, which is
  the length of the binary frame that follows it, and that frame is the slice itself;
  for a run that returns the frames are written out in full.
\<close>

theorem uncompressed_wire_size:
  assumes "fileInput s = Some f" "dataChannel s = Some dc" "readyState dc = Open"
    and "\<not> compressionToggle s"
    and "sendFile env s = (s', out)"
  shows "hd (emitted s s') = Text (MetadataMsg (metadataOf s f)) \<and>
         \<not> compressed (metadataOf s f) \<and>
         (\<forall>h\<in>set (headers (emitted s s')). compressedSize h = originalSize h) \<and>
         map originalSize (headers (emitted s s')) = map length (binaries (emitted s s')) \<and>
         binaries (emitted s s') =
           map (\<lambda>i. take CHUNK_SIZE (drop (i * CHUNK_SIZE) (content f)))
             [0..<length (binaries (emitted s s'))] \<and>
         (out = Returned \<longrightarrow>
            emitted s s' =
              Text (MetadataMsg (metadataOf s f)) #
              concat (map (\<lambda>i. [Text (ChunkMsg
                  \<lparr>index = i,
                   originalSize = length (take CHUNK_SIZE (drop (i * CHUNK_SIZE) (content f))),
                   compressedSize = length (take CHUNK_SIZE (drop (i * CHUNK_SIZE) (content f)))\<rparr>),
                 Binary (take CHUNK_SIZE (drop (i * CHUNK_SIZE) (content f)))])
                        [0..<chunkCount (length (content f))]) @
              [Text CompleteMsg])"
proof -
  let ?n = "chunkCount (length (content f))"
  let ?cf = "chunkFrames (zstdCodec s) (compressionToggle s) (levelInput s) (content f)"
  from sendFile_emitted [OF assms(1-3) assms(5)] obtain k where
    k: "k \<le> ?n" "out = Returned \<longrightarrow> k = ?n"
    and e: "emitted s s' = Text (MetadataMsg (metadataOf s f)) # concat (map ?cf [0..<k]) @
             (if out = Returned then [Text CompleteMsg] else [])"
    by blast
  have off: "compressionToggle s = False" using assms(4) by simp
  have hs: "headers (emitted s s') =
      map (\<lambda>i. \<lparr>index = i, originalSize = length (chunkAt (content f) i),
                compressedSize = length (chunkAt (content f) i)\<rparr>) [0..<k]"
    by (simp only: e headers_frames off wireOf_plain)
  have bs: "binaries (emitted s s') = map (\<lambda>i. chunkAt (content f) i) [0..<k]"
    by (simp only: e binaries_frames off wireOf_plain)
  have cf: "chunkFrames (zstdCodec s) False (levelInput s) (content f) =
     (\<lambda>i. [Text (ChunkMsg
                  \<lparr>index = i,
                   originalSize = length (take CHUNK_SIZE (drop (i * CHUNK_SIZE) (content f))),
                   compressedSize = length (take CHUNK_SIZE (drop (i * CHUNK_SIZE) (content f)))\<rparr>),
                 Binary (take CHUNK_SIZE (drop (i * CHUNK_SIZE) (content f)))])"
    by (rule ext) (simp add: chunkFrames_def wireOf_plain chunkAt_def)
  have p1: "hd (emitted s s') = Text (MetadataMsg (metadataOf s f))" by (simp add: e)
  have p2: "\<not> compressed (metadataOf s f)" using assms(4) by (simp add: metadataOf_def)
  have p3: "\<forall>h\<in>set (headers (emitted s s')). compressedSize h = originalSize h"
    by (auto simp: hs)
  have p4: "map originalSize (headers (emitted s s')) = map length (binaries (emitted s s'))"
    by (simp add: hs bs comp_def)
  have p5: "binaries (emitted s s') =
           map (\<lambda>i. take CHUNK_SIZE (drop (i * CHUNK_SIZE) (content f)))
             [0..<length (binaries (emitted s s'))]"
    by (simp add: bs chunkAt_def)
  have p6: "out = Returned \<longrightarrow>
            emitted s s' =
              Text (MetadataMsg (metadataOf s f)) #
              concat (map (\<lambda>i. [Text (ChunkMsg
                  \<lparr>index = i,
                   originalSize = length (take CHUNK_SIZE (drop (i * CHUNK_SIZE) (content f))),
                   compressedSize = length (take CHUNK_SIZE (drop (i * CHUNK_SIZE) (content f)))\<rparr>),
                 Binary (take CHUNK_SIZE (drop (i * CHUNK_SIZE) (content f)))])
                        [0..<chunkCount (length (content f))]) @
              [Text CompleteMsg]"
  proof
    assume r: "out = Returned"
    with k(2) have "k = ?n" by simp
    with e r show "emitted s s' =
              Text (MetadataMsg (metadataOf s f)) #
              concat (map (\<lambda>i. [Text (ChunkMsg
                  \<lparr>index = i,
                   originalSize = length (take CHUNK_SIZE (drop (i * CHUNK_SIZE) (content f))),
                   compressedSize = length (take CHUNK_SIZE (drop (i * CHUNK_SIZE) (content f)))\<rparr>),
                 Binary (take CHUNK_SIZE (drop (i * CHUNK_SIZE) (content f)))])
                        [0..<chunkCount (length (content f))]) @
              [Text CompleteMsg]"
      by (simp add: off cf)
  qed
  from p1 p2 p3 p4 p5 p6 show ?thesis by blast
qed

text \<open>The file of 200000 bytes, sent without compression.\<close>

theorem uncompressed_wire_size_witness:
  "map compressedSize (headers (emitted plainSender (fst (sendFile demoTransport plainSender)))) =
   map originalSize (headers (emitted plainSender (fst (sendFile demoTransport plainSender))))"
proof -
  note T = uncompressed_wire_size [OF plain_pre(1-4) plain_returns]
  from T have "\<forall>h\<in>set (headers (emitted plainSender (fst (sendFile demoTransport plainSender)))).
     compressedSize h = originalSize h"
    by blast
  then show ?thesis by simp
qed

text \<open>
  C9, as the code has it. Backpressure. The queue of the channel is read after the two
  sends of every pass of the loop, and nowhere else: a pass that goes on to the next
  chunk leaves at most \<open>BUFFER_THRESHOLD\<close> bytes queued, because a pass that finds more
  waits in \<open>waitForBufferDrain\<close> until the transport has brought the amount down to the
  threshold, and a pass still suspended when the transport's tasks end has the amount
  above the threshold. \<open>sendFile\<close> enters the loop with what the channel held before,
  plus the metadata frame, less what has drained while the file was read; nothing
  keeps that amount below the threshold. Every wait of a run begins with the amount
  above the threshold, and above the larger of the threshold and the amount at entry
  by no more than the bytes that one pass has queued (the header frame and the binary
  frame of one chunk); when the loop is entered at or below the threshold, that is the
  threshold itself. A run with at least one chunk that returns although the bytes of
  its chunks, added to the queue at entry, exceed the threshold has waited at least
  once, and it leaves the queue at most the completion frame above the threshold.
\<close>

theorem backpressure_after_every_chunk:
  assumes "fileInput s = Some f" "dataChannel s = Some dc" "readyState dc = Open"
    and "sendFile env s = (s', out)"
  shows "(\<forall>jb zc uc level ab k l0 l1.
            sendChunk jb zc uc level ab k l0 = (l1, Returned) \<longrightarrow>
            bufferedAmount (chan l1) \<le> BUFFER_THRESHOLD) \<and>
         (\<forall>jb zc uc level ab k l0 l1.
            sendChunk jb zc uc level ab k l0 = (l1, Suspended) \<longrightarrow>
            BUFFER_THRESHOLD < bufferedAmount (chan l1)) \<and>
         (\<forall>w\<in>set (warnedAmounts s s').
            BUFFER_THRESHOLD < w \<and>
            (\<exists>k<chunkCount (length (content f)).
               w \<le> max BUFFER_THRESHOLD
                       (bufferedAmount dc + jsonBytes env (MetadataMsg (metadataOf s f)) -
                        readDrain env) +
                     pairBytes (jsonBytes env) (zstdCodec s) (compressionToggle s) (levelInput s)
                       (content f) k)) \<and>
         (out = Returned \<and> 0 < chunkCount (length (content f)) \<and>
          BUFFER_THRESHOLD <
            bufferedAmount dc + jsonBytes env (MetadataMsg (metadataOf s f)) - readDrain env +
            sum_list (map (pairBytes (jsonBytes env) (zstdCodec s) (compressionToggle s)
                             (levelInput s) (content f))
                        [0..<chunkCount (length (content f))])
            \<longrightarrow> warnedAmounts s s' \<noteq> []) \<and>
         (out = Returned \<and> 0 < chunkCount (length (content f)) \<longrightarrow>
            queued s' \<le> BUFFER_THRESHOLD + jsonBytes env CompleteMsg) \<and>
         (out = Suspended \<longrightarrow> BUFFER_THRESHOLD < queued s')"
proof -
  let ?n = "chunkCount (length (content f))"
  let ?pb = "pairBytes (jsonBytes env) (zstdCodec s) (compressionToggle s) (levelInput s) (content f)"
  let ?l0 = "\<lparr>chan = drained (readDrain env)
                 (send (jsonBytes env) (Text (MetadataMsg (metadataOf s f))) dc),
              bench = \<lparr>benchOriginalSize = length (content f),
                            benchCompressedSize = 0, chunksSent = 0, chunksReceived = 0\<rparr>,
              diags = diagnostics s, pending = waitDrains env\<rparr>"
  let ?e = "bufferedAmount dc + jsonBytes env (MetadataMsg (metadataOf s f)) - readDrain env"
  have one: "\<forall>jb zc uc level ab k l0 l1.
            sendChunk jb zc uc level ab k l0 = (l1, Returned) \<longrightarrow>
            bufferedAmount (chan l1) \<le> BUFFER_THRESHOLD"
  proof (intro allI impI)
    fix jb zc uc level ab k l0 l1
    assume "sendChunk jb zc uc level ab k l0 = (l1, Returned)"
    from sendChunk_cases [OF this] show "bufferedAmount (chan l1) \<le> BUFFER_THRESHOLD" by auto
  qed
  have two: "\<forall>jb zc uc level ab k l0 l1.
            sendChunk jb zc uc level ab k l0 = (l1, Suspended) \<longrightarrow>
            BUFFER_THRESHOLD < bufferedAmount (chan l1)"
  proof (intro allI impI)
    fix jb zc uc level ab k l0 l1
    assume "sendChunk jb zc uc level ab k l0 = (l1, Suspended)"
    from sendChunk_cases [OF this] show "BUFFER_THRESHOLD < bufferedAmount (chan l1)" by auto
  qed
  obtain l o1 where loop:
    "sendChunks (jsonBytes env) (zstdCodec s) (compressionToggle s) (levelInput s) (content f)
       ?n 0 ?l0 = (l, o1)"
    by (cases "sendChunks (jsonBytes env) (zstdCodec s) (compressionToggle s) (levelInput s)
       (content f) ?n 0 ?l0")
  have whole: "sendFile env s =
     (case o1 of
        Returned \<Rightarrow> (s\<lparr>dataChannel := Some (send (jsonBytes env) (Text CompleteMsg) (chan l)),
                        benchmark := bench l, diagnostics := diags l\<rparr>, Returned)
      | _ \<Rightarrow> (s\<lparr>dataChannel := Some (chan l), benchmark := bench l, diagnostics := diags l\<rparr>, o1))"
    using assms(1-3) loop by (simp add: sendFile_def Let_def metadataOf_def split: outcome.splits)
  from whole assms(4) have out: "out = o1" by (cases o1) simp_all
  from whole assms(4) have dg: "diagnostics s' = diags l" by (cases o1) auto
  from whole assms(4) have q: "queued s' =
      (if out = Returned then bufferedAmount (chan l) + jsonBytes env CompleteMsg
       else bufferedAmount (chan l))"
    by (cases o1) (auto simp: queued_def send_def frameBytes_def)
  have entry: "bufferedAmount (chan ?l0) = ?e"
    by (simp add: drained_def send_def frameBytes_def)
  note loop' = sendChunks_backpressure_entry [OF loop]
  have low: "o1 = Returned \<longrightarrow> 0 < ?n \<longrightarrow> bufferedAmount (chan l) \<le> BUFFER_THRESHOLD"
    using loop' by (rule conjunct1 [OF conjunct2])
  have high: "o1 = Suspended \<longrightarrow> BUFFER_THRESHOLD < bufferedAmount (chan l)"
    using loop' by (rule conjunct2 [OF conjunct2])
  from loop' [THEN conjunct1] obtain ws where warned:
    "diags l = diags ?l0 @ map BufferFull ws \<and>
     (\<forall>w\<in>set ws. BUFFER_THRESHOLD < w \<and>
        (\<exists>k. 0 \<le> k \<and> k < ?n \<and>
           w \<le> max BUFFER_THRESHOLD (bufferedAmount (chan ?l0)) + ?pb k)) \<and>
     (o1 = Returned \<longrightarrow> 0 < ?n \<longrightarrow>
        BUFFER_THRESHOLD < bufferedAmount (chan ?l0) + sum_list (map ?pb [0..<?n]) \<longrightarrow>
        ws \<noteq> [])" ..
  from warned have ws: "diags l = diags ?l0 @ map BufferFull ws"
    by (rule conjunct1)
  from warned have bound: "\<forall>w\<in>set ws. BUFFER_THRESHOLD < w \<and>
        (\<exists>k. 0 \<le> k \<and> k < ?n \<and>
           w \<le> max BUFFER_THRESHOLD (bufferedAmount (chan ?l0)) + ?pb k)"
    by (rule conjunct1 [OF conjunct2])
  from warned have some: "o1 = Returned \<longrightarrow> 0 < ?n \<longrightarrow>
        BUFFER_THRESHOLD < bufferedAmount (chan ?l0) + sum_list (map ?pb [0..<?n]) \<longrightarrow>
        ws \<noteq> []"
    by (rule conjunct2 [OF conjunct2])
  have w: "warnedAmounts s s' = ws"
    by (simp add: warnedAmounts_def dg ws fullAmounts_BufferFull)
  have three: "\<forall>w\<in>set (warnedAmounts s s').
            BUFFER_THRESHOLD < w \<and> (\<exists>k<?n. w \<le> max BUFFER_THRESHOLD ?e + ?pb k)"
    unfolding w using bound by (simp only: entry) blast
  have four: "out = Returned \<and> 0 < ?n \<and> BUFFER_THRESHOLD < ?e + sum_list (map ?pb [0..<?n])
            \<longrightarrow> warnedAmounts s s' \<noteq> []"
  proof
    assume a: "out = Returned \<and> 0 < ?n \<and> BUFFER_THRESHOLD < ?e + sum_list (map ?pb [0..<?n])"
    then have "BUFFER_THRESHOLD < bufferedAmount (chan ?l0) + sum_list (map ?pb [0..<?n])"
      by (simp only: entry)
    with some a out have "ws \<noteq> []" by simp
    then show "warnedAmounts s s' \<noteq> []" by (simp add: w)
  qed
  have five: "out = Returned \<and> 0 < ?n \<longrightarrow>
      queued s' \<le> BUFFER_THRESHOLD + jsonBytes env CompleteMsg"
    using low out q by auto
  have six: "out = Suspended \<longrightarrow> BUFFER_THRESHOLD < queued s'"
    using high out q by auto
  from one two three four five six show ?thesis by blast
qed

text \<open>
  The two-byte file sent over a channel with 76 bytes left below the threshold: once
  with a task of the transport that drains 4096 bytes, once with one that drains ten.
\<close>

theorem backpressure_after_every_chunk_witness:
  "snd (sendFile drainingTransport nearlyFull) = Returned \<and>
   warnedAmounts nearlyFull (fst (sendFile drainingTransport nearlyFull)) = [1048631] \<and>
   queued (fst (sendFile drainingTransport nearlyFull)) \<le> BUFFER_THRESHOLD + 64 \<and>
   snd (sendFile slowTransport nearlyFull) = Suspended \<and>
   BUFFER_THRESHOLD < queued (fst (sendFile slowTransport nearlyFull))"
proof -
  have r: "snd (sendFile drainingTransport nearlyFull) = Returned"
    by (simp add: demo_defs run_defs)
  then have run: "sendFile drainingTransport nearlyFull =
      (fst (sendFile drainingTransport nearlyFull), Returned)"
    by (metis prod.collapse)
  have r': "snd (sendFile slowTransport nearlyFull) = Suspended"
    by (simp add: demo_defs run_defs)
  then have stay: "sendFile slowTransport nearlyFull =
      (fst (sendFile slowTransport nearlyFull), Suspended)"
    by (metis prod.collapse)
  have w: "warnedAmounts nearlyFull (fst (sendFile drainingTransport nearlyFull)) = [1048631]"
    by (simp add: warnedAmounts_def demo_defs run_defs)
  have n: "0 < chunkCount (length (content demoFile))"
    by (simp add: demo_defs chunkCount_div CHUNK_SIZE_def)
  have j: "jsonBytes drainingTransport CompleteMsg = 64" by (simp add: demo_defs)
  from backpressure_after_every_chunk [OF nearly_pre run]
  have "Returned = Returned \<and> 0 < chunkCount (length (content demoFile)) \<longrightarrow>
      queued (fst (sendFile drainingTransport nearlyFull))
        \<le> BUFFER_THRESHOLD + jsonBytes drainingTransport CompleteMsg"
    by blast
  with n have a: "queued (fst (sendFile drainingTransport nearlyFull)) \<le> BUFFER_THRESHOLD + 64"
    by (simp only: j simp_thms)
  from backpressure_after_every_chunk [OF nearly_pre stay]
  have b: "BUFFER_THRESHOLD < queued (fst (sendFile slowTransport nearlyFull))"
    by (simp only: simp_thms)
  from r w a r' b show ?thesis by blast
qed

text \<open>
  C9 as stated fails. A file of one full chunk is sent twice without compression, and
  both runs return. The first run enters its loop below the threshold, does not wait
  and leaves 1048612 bytes queued: the completion frame is sent without a look at the
  queue. The second run adds its metadata and enters its loop above the threshold; the
  only pass of its loop queues 65600 bytes (a header of 64 bytes and the 65536 bytes
  of the chunk), and its only wait begins with 1114276 bytes queued, which exceeds the
  threshold by 65700 bytes, more than the bytes of one chunk.
\<close>

theorem backpressure_bound_counterexample:
  "snd (sendFile steadyTransport busySender) = Returned \<and>
   warnedAmounts busySender afterFirstSend = [] \<and>
   queued afterFirstSend = 1048612 \<and>
   fileInput afterFirstSend = Some chunkFile \<and>
   snd (sendFile steadyTransport afterFirstSend) = Returned \<and>
   chunkCount (length (content chunkFile)) = 1 \<and>
   pairBytes (jsonBytes steadyTransport) (zstdCodec afterFirstSend)
     (compressionToggle afterFirstSend) (levelInput afterFirstSend) (content chunkFile) 0 = 65600 \<and>
   warnedAmounts afterFirstSend (fst (sendFile steadyTransport afterFirstSend)) = [1114276] \<and>
   BUFFER_THRESHOLD + 65600 < 1114276"
  by (simp add: demo_defs run_defs warnedAmounts_def queued_def pairBytes_def chunkFrames_def
      wireOf_def chunkAt_def)

text \<open>
  C10. The numbers in chunk headers are not used. Two sequences of frames that differ
  only in the \<open>index\<close>, \<open>originalSize\<close> and \<open>compressedSize\<close> fields of their chunk headers
  drive the receiver, from the same state, through the same outcomes to the same list
  of received files, and to states that differ at most in the numbers of the pending
  header. Two sequences that differ, beyond that, in any field of their metadata but
  the \<open>compressed\<close> flag still lead to the same outcomes and to the same delivered
  bytes.
\<close>

theorem header_fields_unused:
  "(map blank frs1 = map blank frs2 \<longrightarrow>
      fileList (fst (receive frs1 r)) = fileList (fst (receive frs2 r)) \<and>
      snd (receive frs1 r) = snd (receive frs2 r) \<and>
      blankState (fst (receive frs1 r)) = blankState (fst (receive frs2 r))) \<and>
   (map bare frs1 = map bare frs2 \<longrightarrow>
      map blobData (fileList (fst (receive frs1 r))) =
        map blobData (fileList (fst (receive frs2 r))) \<and>
      snd (receive frs1 r) = snd (receive frs2 r))"
proof (intro conjI impI)
  assume eq: "map blank frs1 = map blank frs2"
  have a: "blankState (fst (receive frs1 r)) = blankState (fst (receive frs2 r)) \<and>
         snd (receive frs1 r) = snd (receive frs2 r)"
    using eq by (intro receive_alike) simp_all
  then show "snd (receive frs1 r) = snd (receive frs2 r)"
    and "blankState (fst (receive frs1 r)) = blankState (fst (receive frs2 r))" by simp_all
  from a have "fileList (blankState (fst (receive frs1 r))) =
      fileList (blankState (fst (receive frs2 r)))"
    by simp
  then show "fileList (fst (receive frs1 r)) = fileList (fst (receive frs2 r))"
    by (simp only: fileList_blankState)
next
  assume eq: "map bare frs1 = map bare frs2"
  have a: "bareState (fst (receive frs1 r)) = bareState (fst (receive frs2 r)) \<and>
         snd (receive frs1 r) = snd (receive frs2 r)"
    using eq by (intro receive_bare_alike) simp_all
  then show "snd (receive frs1 r) = snd (receive frs2 r)" by simp
  from a have "map blobData (fileList (bareState (fst (receive frs1 r)))) =
      map blobData (fileList (bareState (fst (receive frs2 r))))"
    by simp
  then show "map blobData (fileList (fst (receive frs1 r))) =
        map blobData (fileList (fst (receive frs2 r)))"
    by (simp only: blobData_bareState)
qed

text \<open>Two transfers of three bytes whose headers disagree in every field.\<close>

theorem header_fields_unused_witness:
  "fileList (fst (receive
      [Text (MetadataMsg demoMetadata),
       Text (ChunkMsg \<lparr>index = 0, originalSize = 3, compressedSize = 3\<rparr>),
       Binary [1, 2, 3], Text CompleteMsg] initial)) =
   fileList (fst (receive
      [Text (MetadataMsg demoMetadata),
       Text (ChunkMsg \<lparr>index = 7, originalSize = 9, compressedSize = 1\<rparr>),
       Binary [1, 2, 3], Text CompleteMsg] initial)) \<and>
   map blobData (fileList (fst (receive
      [Text (MetadataMsg demoMetadata),
       Text (ChunkMsg \<lparr>index = 0, originalSize = 3, compressedSize = 3\<rparr>),
       Binary [1, 2, 3], Text CompleteMsg] initial))) =
   map blobData (fileList (fst (receive
      [Text (MetadataMsg (demoMetadata\<lparr>name := ''c.bin'', size' := 3\<rparr>)),
       Text (ChunkMsg \<lparr>index = 7, originalSize = 9, compressedSize = 1\<rparr>),
       Binary [1, 2, 3], Text CompleteMsg] initial)))"
proof -
  have a: "map blank
      [Text (MetadataMsg demoMetadata),
       Text (ChunkMsg \<lparr>index = 0, originalSize = 3, compressedSize = 3\<rparr>),
       Binary [1, 2, 3], Text CompleteMsg] =
     map blank
      [Text (MetadataMsg demoMetadata),
       Text (ChunkMsg \<lparr>index = 7, originalSize = 9, compressedSize = 1\<rparr>),
       Binary [1, 2, 3], Text CompleteMsg]"
    by simp
  have b: "map bare
      [Text (MetadataMsg demoMetadata),
       Text (ChunkMsg \<lparr>index = 0, originalSize = 3, compressedSize = 3\<rparr>),
       Binary [1, 2, 3], Text CompleteMsg] =
     map bare
      [Text (MetadataMsg (demoMetadata\<lparr>name := ''c.bin'', size' := 3\<rparr>)),
       Text (ChunkMsg \<lparr>index = 7, originalSize = 9, compressedSize = 1\<rparr>),
       Binary [1, 2, 3], Text CompleteMsg]"
    by simp
  from a header_fields_unused [of _ _ initial]
  have "fileList (fst (receive
      [Text (MetadataMsg demoMetadata),
       Text (ChunkMsg \<lparr>index = 0, originalSize = 3, compressedSize = 3\<rparr>),
       Binary [1, 2, 3], Text CompleteMsg] initial)) =
   fileList (fst (receive
      [Text (MetadataMsg demoMetadata),
       Text (ChunkMsg \<lparr>index = 7, originalSize = 9, compressedSize = 1\<rparr>),
       Binary [1, 2, 3], Text CompleteMsg] initial))"
    by blast
  moreover from b header_fields_unused [of _ _ initial]
  have "map blobData (fileList (fst (receive
      [Text (MetadataMsg demoMetadata),
       Text (ChunkMsg \<lparr>index = 0, originalSize = 3, compressedSize = 3\<rparr>),
       Binary [1, 2, 3], Text CompleteMsg] initial))) =
   map blobData (fileList (fst (receive
      [Text (MetadataMsg (demoMetadata\<lparr>name := ''c.bin'', size' := 3\<rparr>)),
       Text (ChunkMsg \<lparr>index = 7, originalSize = 9, compressedSize = 1\<rparr>),
       Binary [1, 2, 3], Text CompleteMsg] initial)))"
    by blast
  ultimately show ?thesis by blast
qed

end
